theory Spec2Isabelle
  imports Complex_Main
begin

section \<open>The my-work variant: GameState\<close>

text \<open>
  The class \<open>GameState\<close> of \<open>my-work/tetris-game/script.js\<close>. JavaScript numbers that
  the game only ever uses as integers are modelled as \<open>int\<close>; the three status flags are
  booleans. Every method mutates \<open>this\<close>; the model takes the state and returns the new
  one, paired with the method's return value where it has one.
\<close>

record GameState =
  score :: int
  level :: int
  lines :: int
  isPaused :: bool
  isGameOver :: bool
  isRunning :: bool

definition reset :: "GameState \<Rightarrow> GameState" where
  "reset s = s\<lparr>score := 0, level := 1, lines := 0,
               isPaused := False, isGameOver := False, isRunning := False\<rparr>"

text \<open>The constructor only calls \<open>reset\<close>.\<close>

definition newGameState :: GameState where
  "newGameState = \<lparr>score = 0, level = 1, lines = 0,
                    isPaused = False, isGameOver = False, isRunning = False\<rparr>"

definition setPaused :: "GameState \<Rightarrow> bool \<Rightarrow> GameState" where
  "setPaused s paused = (if isGameOver s then s else s\<lparr>isPaused := paused\<rparr>)"

definition setGameOver :: "GameState \<Rightarrow> bool \<Rightarrow> GameState" where
  "setGameOver s gameOver =
     (let s1 = s\<lparr>isGameOver := gameOver\<rparr>
      in if isGameOver s1 then s1\<lparr>isRunning := False, isPaused := False\<rparr> else s1)"

definition setRunning :: "GameState \<Rightarrow> bool \<Rightarrow> GameState" where
  "setRunning s running =
     (let s1 = s\<lparr>isRunning := running\<rparr>
      in if isRunning s1 then s1\<lparr>isGameOver := False\<rparr> else s1)"

text \<open>The object literal \<open>scoreMultipliers\<close> of \<open>updateScore\<close>, as a finite map.\<close>

definition scoreMultipliers :: "int \<rightharpoonup> int" where
  "scoreMultipliers = [1 \<mapsto> 1, 2 \<mapsto> 3, 3 \<mapsto> 5, 4 \<mapsto> 8]"

text \<open>\<open>updateScore\<close> returns the points awarded; \<open>scoreMultipliers[n] || 1\<close> falls back to 1.\<close>

definition updateScore :: "GameState \<Rightarrow> int \<Rightarrow> GameState \<times> int" where
  "updateScore s linesCleared =
     (if linesCleared < 0 \<or> linesCleared > 4 then (s, 0)
      else if linesCleared = 0 then (s, 0)
      else
        let baseScore = 100;
            multiplier = (case scoreMultipliers linesCleared of Some m \<Rightarrow> m | None \<Rightarrow> 1);
            basePoints = baseScore * multiplier;
            levelBonus = level s;
            totalPoints = basePoints * levelBonus
        in (s\<lparr>score := score s + totalPoints\<rparr>, totalPoints))"

text \<open>\<open>addLines\<close> returns whether the level increased.\<close>

definition addLines :: "GameState \<Rightarrow> int \<Rightarrow> GameState \<times> bool" where
  "addLines s linesCleared =
     (if linesCleared < 0 then (s, False)
      else
        let s1 = s\<lparr>lines := lines s + linesCleared\<rparr>;
            newLevel = lines s1 div 10 + 1;
            levelIncreased = (newLevel > level s1)
        in (if levelIncreased then s1\<lparr>level := newLevel\<rparr> else s1, levelIncreased))"

definition awardSoftDropPoints :: "GameState \<Rightarrow> int \<Rightarrow> GameState \<times> int" where
  "awardSoftDropPoints s cellsDropped =
     (if cellsDropped \<le> 0 then (s, 0)
      else (s\<lparr>score := score s + cellsDropped\<rparr>, cellsDropped))"

definition awardHardDropPoints :: "GameState \<Rightarrow> int \<Rightarrow> GameState \<times> int" where
  "awardHardDropPoints s cellsDropped =
     (if cellsDropped \<le> 0 then (s, 0)
      else (s\<lparr>score := score s + cellsDropped * 2\<rparr>, cellsDropped * 2))"

text \<open>
  \<open>processLineClear\<close> calls \<open>updateScore\<close> and then \<open>addLines\<close>; of the report object it
  builds, the model keeps the points awarded and the level flag.
\<close>

definition processLineClear :: "GameState \<Rightarrow> int \<Rightarrow> GameState \<times> int \<times> bool" where
  "processLineClear s linesCleared =
     (let (s1, pointsAwarded) = updateScore s linesCleared;
          (s2, levelIncreased) = addLines s1 linesCleared
      in (s2, pointsAwarded, levelIncreased))"

text \<open>
  \<open>fixInvalidState\<close>: the \<open>typeof\<close> and \<open>Number.isFinite\<close> tests cannot fail on the typed
  state, so the numeric repairs reduce to the range tests. The statements run in the
  source's order, each on the state left by the one before.
\<close>

definition fixInvalidState :: "GameState \<Rightarrow> GameState" where
  "fixInvalidState s =
     (let s1 = (if score s < 0 then s\<lparr>score := 0\<rparr> else s);
          s2 = (if level s1 < 1 then s1\<lparr>level := 1\<rparr> else s1);
          s3 = (if lines s2 < 0 then s2\<lparr>lines := 0\<rparr> else s2);
          s4 = (if isGameOver s3 \<and> isRunning s3 then s3\<lparr>isRunning := False\<rparr> else s3);
          s5 = (if isPaused s4 \<and> isGameOver s4 then s4\<lparr>isPaused := False\<rparr> else s4);
          s6 = (if score s5 > 999999999 then s5\<lparr>score := 999999999\<rparr> else s5);
          s7 = (if level s6 > 999 then s6\<lparr>level := 999\<rparr> else s6);
          s8 = (if lines s7 > 999999 then s7\<lparr>lines := 999999\<rparr> else s7)
      in s8)"




text \<open>
  The calls a client can make on a \<open>GameState\<close>, and the state they leave. \<open>run\<close> applies
  a sequence of calls to a freshly constructed state.
\<close>

datatype gs_call =
    Reset
  | SetPaused bool
  | SetGameOver bool
  | SetRunning bool
  | UpdateScore int
  | AddLines int
  | AwardSoftDropPoints int
  | AwardHardDropPoints int
  | ProcessLineClear int
  | FixInvalidState

fun call :: "GameState \<Rightarrow> gs_call \<Rightarrow> GameState" where
  "call s Reset = reset s"
| "call s (SetPaused b) = setPaused s b"
| "call s (SetGameOver b) = setGameOver s b"
| "call s (SetRunning b) = setRunning s b"
| "call s (UpdateScore n) = fst (updateScore s n)"
| "call s (AddLines n) = fst (addLines s n)"
| "call s (AwardSoftDropPoints n) = fst (awardSoftDropPoints s n)"
| "call s (AwardHardDropPoints n) = fst (awardHardDropPoints s n)"
| "call s (ProcessLineClear n) = fst (processLineClear s n)"
| "call s FixInvalidState = fixInvalidState s"

definition run :: "gs_call list \<Rightarrow> GameState" where
  "run cs = foldl call newGameState cs"

text \<open>The two halves of the status invariant of the data model.\<close>

definition over_inv :: "GameState \<Rightarrow> bool" where
  "over_inv s = (isGameOver s \<longrightarrow> \<not> isRunning s \<and> \<not> isPaused s)"

definition paused_inv :: "GameState \<Rightarrow> bool" where
  "paused_inv s = (isPaused s \<longrightarrow> isRunning s)"

section \<open>The my-work variant: Tetromino\<close>

text \<open>
  \<open>TETROMINO_TYPES\<close> maps a type name to its four rotation states and its colour. A shape
  is a list of rows of 0/1 cells.
\<close>

record TetrominoData =
  shapes :: "nat list list list"
  color :: string

definition TETROMINO_TYPES :: "string \<rightharpoonup> TetrominoData" where
  "TETROMINO_TYPES =
    [''I'' \<mapsto> \<lparr>shapes = [[[1,1,1,1]],
                         [[1],[1],[1],[1]],
                         [[1,1,1,1]],
                         [[1],[1],[1],[1]]], color = ''#00f0f0''\<rparr>,
     ''O'' \<mapsto> \<lparr>shapes = [[[1,1],[1,1]],
                         [[1,1],[1,1]],
                         [[1,1],[1,1]],
                         [[1,1],[1,1]]], color = ''#f0f000''\<rparr>,
     ''T'' \<mapsto> \<lparr>shapes = [[[0,1,0],[1,1,1]],
                         [[1,0],[1,1],[1,0]],
                         [[1,1,1],[0,1,0]],
                         [[0,1],[1,1],[0,1]]], color = ''#a000f0''\<rparr>,
     ''S'' \<mapsto> \<lparr>shapes = [[[0,1,1],[1,1,0]],
                         [[1,0],[1,1],[0,1]],
                         [[0,1,1],[1,1,0]],
                         [[1,0],[1,1],[0,1]]], color = ''#00f000''\<rparr>,
     ''Z'' \<mapsto> \<lparr>shapes = [[[1,1,0],[0,1,1]],
                         [[0,1],[1,1],[1,0]],
                         [[1,1,0],[0,1,1]],
                         [[0,1],[1,1],[1,0]]], color = ''#f00000''\<rparr>,
     ''J'' \<mapsto> \<lparr>shapes = [[[1,0,0],[1,1,1]],
                         [[1,1],[1,0],[1,0]],
                         [[1,1,1],[0,0,1]],
                         [[0,1],[0,1],[1,1]]], color = ''#0000f0''\<rparr>,
     ''L'' \<mapsto> \<lparr>shapes = [[[0,0,1],[1,1,1]],
                         [[1,0],[1,0],[1,1]],
                         [[1,1,1],[1,0,0]],
                         [[1,1],[0,1],[0,1]]], color = ''#f0a000''\<rparr>]"

text \<open>
  A \<open>Tetromino\<close> holds its type, its rotation index and the table entry of its type
  (\<open>_tetrominoData\<close>). The constructor throws on an unknown type: \<open>None\<close>.
\<close>

record Tetromino =
  type :: string
  rotation :: nat
  tetrominoData :: TetrominoData

definition newTetromino :: "string \<Rightarrow> Tetromino option" where
  "newTetromino t =
     (case TETROMINO_TYPES t of
        None \<Rightarrow> None
      | Some d \<Rightarrow> Some \<lparr>type = t, rotation = 0, tetrominoData = d\<rparr>)"

text \<open>
  \<open>getShape\<close> indexes the shapes by the rotation; an index past the end of the array reads
  \<open>undefined\<close> in the source, \<open>None\<close> here.
\<close>

definition getShape :: "Tetromino \<Rightarrow> nat list list option" where
  "getShape p =
     (if rotation p < length (shapes (tetrominoData p))
      then Some (shapes (tetrominoData p) ! rotation p) else None)"

definition getColor :: "Tetromino \<Rightarrow> string" where
  "getColor p = color (tetrominoData p)"

definition getType :: "Tetromino \<Rightarrow> string" where
  "getType p = type p"

definition getRotation :: "Tetromino \<Rightarrow> nat" where
  "getRotation p = rotation p"

text \<open>
  \<open>validateCurrentShape\<close>: the shape exists and is not empty, its first row is not empty,
  every row has the first row's width and only cells 0 or 1, and some cell is 1. The
  loops that return \<open>false\<close> at the first offending row or cell are \<open>list_all\<close>; the
  search for a filled cell is \<open>list_ex\<close>.
\<close>

definition validateCurrentShape :: "Tetromino \<Rightarrow> bool" where
  "validateCurrentShape p =
     (case getShape p of
        None \<Rightarrow> False
      | Some shape \<Rightarrow>
          if length shape = 0 then False
          else
            let expectedWidth = length (shape ! 0) in
            if expectedWidth = 0 then False
            else if \<not> list_all (\<lambda>row. length row = expectedWidth
                                    \<and> list_all (\<lambda>cell. cell = 0 \<or> cell = 1) row) shape
            then False
            else list_ex (\<lambda>row. list_ex (\<lambda>cell. cell = 1) row) shape)"

text \<open>
  \<open>rotate\<close> (here \<open>rotate_piece\<close>) advances the rotation index modulo 4 and validates
  the new shape; when the validation fails it restores the index and throws, which is
  \<open>None\<close>. On success the source returns \<open>getShape()\<close> of the rotated piece, which is
  \<open>getShape\<close> of the piece the model returns.
\<close>

definition rotate_piece :: "Tetromino \<Rightarrow> Tetromino option" where
  "rotate_piece p =
     (let p1 = p\<lparr>rotation := (rotation p + 1) mod 4\<rparr>
      in if \<not> validateCurrentShape p1 then None else Some p1)"

text \<open>
  \<open>isBlockAt\<close> tests a shape cell, with the first row's length as the width. (With no
  shape at all the source would throw; the model answers \<open>False\<close>.)
\<close>

definition isBlockAt :: "Tetromino \<Rightarrow> int \<Rightarrow> int \<Rightarrow> bool" where
  "isBlockAt p row col =
     (case getShape p of
        None \<Rightarrow> False
      | Some shape \<Rightarrow>
          if row < 0 \<or> row \<ge> int (length shape) \<or> col < 0 \<or> col \<ge> int (length (shape ! 0))
          then False
          else shape ! nat row ! nat col = 1)"

text \<open>A piece as the constructor and the rotation methods leave it.\<close>

definition valid_piece :: "Tetromino \<Rightarrow> bool" where
  "valid_piece p =
     (TETROMINO_TYPES (type p) = Some (tetrominoData p) \<and> rotation p < 4)"

section \<open>The my-work variant: GameBoard\<close>

text \<open>
  The board is an array of \<open>height\<close> rows of \<open>width\<close> numbers, 0 for an empty cell. The
  constructor builds it with these dimensions and \<open>validateBoard\<close> is the class's own
  check of them; every index the methods below use on \<open>board\<close> is below \<open>height\<close> and
  \<open>width\<close>, so on a board that passes \<open>validateBoard\<close> every access is inside the array.
  (Outside it a JavaScript read yields \<open>undefined\<close> or throws and a write grows the row;
  the theorems below are about boards that pass \<open>validateBoard\<close>.)
\<close>

record GameBoard =
  width :: nat
  height :: nat
  board :: "nat list list"

definition initializeBoard :: "GameBoard \<Rightarrow> GameBoard" where
  "initializeBoard b = b\<lparr>board := replicate (height b) (replicate (width b) 0)\<rparr>"

definition newGameBoard :: "nat \<Rightarrow> nat \<Rightarrow> GameBoard" where
  "newGameBoard w h = initializeBoard \<lparr>width = w, height = h, board = []\<rparr>"

definition CONFIG_BOARD_WIDTH :: nat where
  "CONFIG_BOARD_WIDTH = 10"

definition CONFIG_BOARD_HEIGHT :: nat where
  "CONFIG_BOARD_HEIGHT = 20"

definition clear :: "GameBoard \<Rightarrow> GameBoard" where
  "clear b = initializeBoard b"

definition reset_board :: "GameBoard \<Rightarrow> GameBoard" where
  "reset_board b = clear b"

definition validateBoard :: "GameBoard \<Rightarrow> bool" where
  "validateBoard b =
     (length (board b) = height b \<and> list_all (\<lambda>row. length row = width b) (board b))"

definition getCellValue :: "GameBoard \<Rightarrow> int \<Rightarrow> int \<Rightarrow> nat option" where
  "getCellValue b row col =
     (if row < 0 \<or> row \<ge> int (height b) \<or> col < 0 \<or> col \<ge> int (width b) then None
      else Some (board b ! nat row ! nat col))"

definition setCellValue :: "GameBoard \<Rightarrow> int \<Rightarrow> int \<Rightarrow> nat \<Rightarrow> GameBoard \<times> bool" where
  "setCellValue b row col v =
     (if row < 0 \<or> row \<ge> int (height b) \<or> col < 0 \<or> col \<ge> int (width b) then (b, False)
      else (b\<lparr>board := (board b)[nat row := (board b ! nat row)[nat col := v]]\<rparr>, True))"

definition isFilled :: "GameBoard \<Rightarrow> int \<Rightarrow> int \<Rightarrow> bool" where
  "isFilled b row col =
     (case getCellValue b row col of None \<Rightarrow> False | Some v \<Rightarrow> v > 0)"

definition isInBounds :: "GameBoard \<Rightarrow> int \<Rightarrow> int \<Rightarrow> bool" where
  "isInBounds b row col =
     (row \<ge> 0 \<and> row < int (height b) \<and> col \<ge> 0 \<and> col < int (width b))"

definition getFilledCellCount :: "GameBoard \<Rightarrow> nat" where
  "getFilledCellCount b =
     sum_list (map (\<lambda>row. length (filter (\<lambda>col. board b ! row ! col > 0) [0..<width b]))
                   [0..<height b])"

text \<open>
  \<open>isValidPosition\<close>: the nested loops return \<open>false\<close> at the first filled shape cell that
  is out of bounds or on a filled board cell, and \<open>true\<close> when they run to the end.
\<close>

definition isValidPosition :: "GameBoard \<Rightarrow> Tetromino \<Rightarrow> int \<Rightarrow> int \<Rightarrow> bool" where
  "isValidPosition b piece x y =
     (case getShape piece of
        None \<Rightarrow> False
      | Some shape \<Rightarrow>
          if length shape = 0 then False
          else
            list_all (\<lambda>row.
              list_all (\<lambda>col.
                if shape ! row ! col = 0 then True
                else
                  let boardRow = y + int row; boardCol = x + int col in
                  if \<not> isInBounds b boardRow boardCol then False
                  else if isFilled b boardRow boardCol then False
                  else True)
                [0..<length (shape ! row)])
              [0..<length shape])"

text \<open>\<open>getColorId\<close>: \<open>colorMap[color] || 1\<close>.\<close>

definition colorMap :: "string \<rightharpoonup> nat" where
  "colorMap = [''#00f0f0'' \<mapsto> 1, ''#f0f000'' \<mapsto> 2, ''#a000f0'' \<mapsto> 3, ''#00f000'' \<mapsto> 4,
               ''#f00000'' \<mapsto> 5, ''#0000f0'' \<mapsto> 6, ''#f0a000'' \<mapsto> 7]"

definition getColorId :: "string \<Rightarrow> nat" where
  "getColorId c = (case colorMap c of None \<Rightarrow> 1 | Some i \<Rightarrow> if i = 0 then 1 else i)"

text \<open>
  \<open>placePiece\<close> refuses an invalid position; otherwise it walks the shape row by row and
  cell by cell and stores the colour id at every cell that is 1.
\<close>

definition placeRow :: "GameBoard \<Rightarrow> nat list \<Rightarrow> nat \<Rightarrow> int \<Rightarrow> int \<Rightarrow> GameBoard" where
  "placeRow b shapeRow colorId x boardRow =
     foldl (\<lambda>b col.
        if shapeRow ! col = 1
        then fst (setCellValue b boardRow (x + int col) colorId)
        else b)
       b [0..<length shapeRow]"

definition placeCells :: "GameBoard \<Rightarrow> nat list list \<Rightarrow> nat \<Rightarrow> int \<Rightarrow> int \<Rightarrow> GameBoard" where
  "placeCells b shape colorId x y =
     foldl (\<lambda>b row. placeRow b (shape ! row) colorId x (y + int row)) b [0..<length shape]"

definition placePiece :: "GameBoard \<Rightarrow> Tetromino \<Rightarrow> int \<Rightarrow> int \<Rightarrow> GameBoard \<times> bool" where
  "placePiece b piece x y =
     (if \<not> isValidPosition b piece x y then (b, False)
      else case getShape piece of
             None \<Rightarrow> (b, False)
           | Some shape \<Rightarrow> (placeCells b shape (getColorId (getColor piece)) x y, True))"

text \<open>
  Line detection: a row is complete when none of its \<open>width\<close> cells is 0. Row indices
  are natural numbers here, so the tests \<open>row < 0\<close> of \<open>isLineComplete\<close> and
  \<open>lineIndex < 0\<close> of \<open>removeLine\<close> have no counterpart.
\<close>

definition isLineComplete :: "GameBoard \<Rightarrow> nat \<Rightarrow> bool" where
  "isLineComplete b row =
     (if row \<ge> height b then False
      else list_all (\<lambda>col. board b ! row ! col \<noteq> 0) [0..<width b])"

text \<open>
  \<open>findCompletedLines\<close> collects the complete rows from the bottom row up and sorts the
  result in descending order.
\<close>

definition findCompletedLines :: "GameBoard \<Rightarrow> nat list" where
  "findCompletedLines b = rev (sort (filter (isLineComplete b) (rev [0..<height b])))"

text \<open>
  \<open>removeLine\<close>: for \<open>row\<close> from \<open>lineIndex\<close> down to 1, copy row \<open>row - 1\<close> into row \<open>row\<close>
  cell by cell; then zero the top row.
\<close>

definition copyRowDown :: "nat \<Rightarrow> nat list list \<Rightarrow> nat \<Rightarrow> nat list list" where
  "copyRowDown w g row =
     foldl (\<lambda>g col. g[row := (g ! row)[col := g ! (row - 1) ! col]]) g [0..<w]"

definition clearTopRow :: "nat \<Rightarrow> nat list list \<Rightarrow> nat list list" where
  "clearTopRow w g = foldl (\<lambda>g col. g[0 := (g ! 0)[col := 0]]) g [0..<w]"

definition removeLine :: "GameBoard \<Rightarrow> nat \<Rightarrow> GameBoard" where
  "removeLine b lineIndex =
     (if lineIndex \<ge> height b then b
      else b\<lparr>board := clearTopRow (width b)
                        (foldl (copyRowDown (width b)) (board b) (rev [1..<Suc lineIndex]))\<rparr>)"

definition removeCompletedLines :: "GameBoard \<Rightarrow> nat list \<Rightarrow> GameBoard" where
  "removeCompletedLines b completedLines = foldl removeLine b completedLines"

definition clearLines :: "GameBoard \<Rightarrow> GameBoard \<times> nat" where
  "clearLines b =
     (let completedLines = findCompletedLines b in
      if length completedLines = 0 then (b, 0)
      else (removeCompletedLines b completedLines, length completedLines))"

section \<open>The examples variant: TetrisGame\<close>

text \<open>
  In \<open>examples/tetris/script.js\<close> a board cell holds the number 0 or the colour string of
  the piece locked there, so cells are JavaScript values. \<open>Undefined\<close> is what a read past
  the end of an array yields and what fills the gap when a write past the end grows it.
\<close>

datatype jsval = Undefined | Num int | Str string

fun truthy :: "jsval \<Rightarrow> bool" where
  "truthy Undefined = False"
| "truthy (Num n) = (n \<noteq> 0)"
| "truthy (Str s) = (s \<noteq> [])"

definition BOARD_WIDTH :: nat where
  "BOARD_WIDTH = 10"

definition BOARD_HEIGHT :: nat where
  "BOARD_HEIGHT = 20"

text \<open>\<open>TETROMINOS\<close>: a 4x4 shape and a colour for each of the seven names.\<close>

definition TETROMINOS :: "string \<rightharpoonup> nat list list \<times> string" where
  "TETROMINOS =
    [''I'' \<mapsto> ([[0,0,0,0],[1,1,1,1],[0,0,0,0],[0,0,0,0]], ''#00f5ff''),
     ''O'' \<mapsto> ([[0,0,0,0],[0,1,1,0],[0,1,1,0],[0,0,0,0]], ''#ffff00''),
     ''T'' \<mapsto> ([[0,0,0,0],[0,1,0,0],[1,1,1,0],[0,0,0,0]], ''#800080''),
     ''S'' \<mapsto> ([[0,0,0,0],[0,1,1,0],[1,1,0,0],[0,0,0,0]], ''#00ff00''),
     ''Z'' \<mapsto> ([[0,0,0,0],[1,1,0,0],[0,1,1,0],[0,0,0,0]], ''#ff0000''),
     ''J'' \<mapsto> ([[0,0,0,0],[1,0,0,0],[1,1,1,0],[0,0,0,0]], ''#0000ff''),
     ''L'' \<mapsto> ([[0,0,0,0],[0,0,1,0],[1,1,1,0],[0,0,0,0]], ''#ffa500'')]"

text \<open>
  A piece object \<open>{shape, color, x, y}\<close>; the fields carry the prefix \<open>pc_\<close>.
  \<open>createPiece\<close> is \<open>createRandomPiece\<close> with the random choice of the name made by the
  caller.
\<close>

record Piece =
  pc_shape :: "nat list list"
  pc_color :: string
  pc_x :: int
  pc_y :: int

definition createEmptyBoard :: "jsval list list" where
  "createEmptyBoard = replicate BOARD_HEIGHT (replicate BOARD_WIDTH (Num 0))"

definition createPiece :: "string \<Rightarrow> Piece option" where
  "createPiece name =
     (case TETROMINOS name of
        None \<Rightarrow> None
      | Some (sh, col) \<Rightarrow>
          Some \<lparr>pc_shape = sh, pc_color = col, pc_x = int (BOARD_WIDTH div 2) - 2, pc_y = 0\<rparr>)"

text \<open>
  \<open>rotateMatrix\<close>: a fresh 4x4 matrix of zeros, then \<open>rotated[j][3 - i] = matrix[i][j]\<close>
  for \<open>i\<close> and \<open>j\<close> from 0 to 3.
\<close>

definition rotateMatrix :: "nat list list \<Rightarrow> nat list list" where
  "rotateMatrix matrix =
     foldl (\<lambda>rotated i.
        foldl (\<lambda>rotated j. rotated[j := (rotated ! j)[3 - i := matrix ! i ! j]])
          rotated [0..<4])
       (replicate 4 (replicate 4 0)) [0..<4]"

text \<open>
  \<open>checkCollision\<close> returns \<open>true\<close> at the first filled shape cell that is left of, right
  of or below the board, or that lies on a truthy board cell in a row \<open>boardY \<ge> 0\<close>.
\<close>

definition checkCollision :: "jsval list list \<Rightarrow> Piece \<Rightarrow> int \<Rightarrow> int \<Rightarrow> bool" where
  "checkCollision brd piece dx dy =
     (let newX = pc_x piece + dx; newY = pc_y piece + dy in
      list_ex (\<lambda>y.
        list_ex (\<lambda>x.
          pc_shape piece ! y ! x \<noteq> 0 \<and>
          (let boardX = newX + int x; boardY = newY + int y in
           (boardX < 0 \<or> boardX \<ge> int BOARD_WIDTH \<or> boardY \<ge> int BOARD_HEIGHT)
           \<or> (boardY \<ge> 0 \<and> truthy (brd ! nat boardY ! nat boardX))))
          [0..<4])
        [0..<4])"

text \<open>
  An array store \<open>row[i] = v\<close>: a negative index sets a property and leaves the elements
  alone, an index past the end grows the array. \<open>storeCell\<close> is \<open>board[r][c] = v\<close> for
  \<open>r \<ge> 0\<close>, which throws (\<open>None\<close>) when the board has no row \<open>r\<close>.
\<close>

definition js_set :: "jsval list \<Rightarrow> int \<Rightarrow> jsval \<Rightarrow> jsval list" where
  "js_set row i v =
     (if i < 0 then row
      else if nat i < length row then row[nat i := v]
      else row @ replicate (nat i - length row) Undefined @ [v])"

definition storeCell :: "jsval list list \<Rightarrow> nat \<Rightarrow> int \<Rightarrow> jsval \<Rightarrow> jsval list list option" where
  "storeCell brd r c v =
     (if r < length brd then Some (brd[r := js_set (brd ! r) c v]) else None)"

text \<open>
  The first half of \<open>placePiece\<close>: every filled shape cell whose board row is not negative
  is stored with the piece's colour.
\<close>

definition lockCell :: "jsval list list \<Rightarrow> Piece \<Rightarrow> nat \<Rightarrow> nat \<Rightarrow> jsval list list option" where
  "lockCell b piece y x =
     (if pc_shape piece ! y ! x \<noteq> 0 then
        (let boardX = pc_x piece + int x; boardY = pc_y piece + int y in
         if boardY \<ge> 0 then storeCell b (nat boardY) boardX (Str (pc_color piece))
         else Some b)
      else Some b)"

definition lockPiece :: "jsval list list \<Rightarrow> Piece \<Rightarrow> jsval list list option" where
  "lockPiece brd piece =
     foldl (\<lambda>r y. foldl (\<lambda>r x. Option.bind r (\<lambda>b. lockCell b piece y x)) r [0..<4])
       (Some brd) [0..<4]"

text \<open>
  The loop of \<open>clearLines\<close>. \<open>y\<close> runs from the bottom row up; a row none of whose cells is
  0 is spliced out, an empty row is pushed on top, and the same \<open>y\<close> is tested again.
  The test reads \<open>this.board[y]\<close>, which throws when the board has no such row.
\<close>

definition lineComplete :: "jsval list \<Rightarrow> bool" where
  "lineComplete row = list_all (\<lambda>cell. cell \<noteq> Num 0) row"

function clearLinesLoop :: "jsval list list \<Rightarrow> int \<Rightarrow> nat \<Rightarrow> (jsval list list \<times> nat) option" where
  "clearLinesLoop brd y linesCleared =
     (if y < 0 then Some (brd, linesCleared)
      else if nat y \<ge> length brd then None
      else if lineComplete (brd ! nat y)
      then clearLinesLoop
             (replicate BOARD_WIDTH (Num 0) # (take (nat y) brd @ drop (Suc (nat y)) brd))
             y (linesCleared + 1)
      else clearLinesLoop brd (y - 1) linesCleared)"
  by pat_completeness auto

termination clearLinesLoop
proof (relation "measures [\<lambda>(brd, y, n). length (filter lineComplete brd),
                           \<lambda>(brd, y, n). nat (y + 1)]", goal_cases)
  case 1
  show ?case by simp
next
  case (2 brd y linesCleared)
  have z: "\<not> lineComplete (replicate BOARD_WIDTH (Num 0))"
    by (simp add: lineComplete_def BOARD_WIDTH_def list_all_iff)
  have "brd = take (nat y) brd @ (brd ! nat y) # drop (Suc (nat y)) brd"
    using 2 by (simp add: id_take_nth_drop)
  then have "length (filter lineComplete brd)
      = length (filter lineComplete (take (nat y) brd @ (brd ! nat y) # drop (Suc (nat y)) brd))"
    by simp
  also have "\<dots> = Suc (length (filter lineComplete (take (nat y) brd @ drop (Suc (nat y)) brd)))"
    using 2 by simp
  finally show ?case using z by simp
next
  case (3 brd y linesCleared)
  then show ?case by simp
qed

subsection \<open>Score, level and drop interval\<close>

text \<open>
  The fields of \<open>TetrisGame\<close> that \<open>updateScore\<close> touches. The table
  \<open>[0, 100, 300, 500, 800]\<close> is indexed by \<open>linesCleared\<close>; past its end the source reads
  \<open>undefined\<close> and the score becomes \<open>NaN\<close> for good, so the score is an \<open>int option\<close>
  with \<open>None\<close> for \<open>NaN\<close>.
\<close>

record TetrisScore =
  tg_score :: "int option"
  tg_level :: int
  tg_lines :: int
  tg_dropInterval :: int

definition startNewGame_score :: TetrisScore where
  "startNewGame_score =
     \<lparr>tg_score = Some 0, tg_level = 1, tg_lines = 0, tg_dropInterval = 1000\<rparr>"

definition pointsTable :: "int list" where
  "pointsTable = [0, 100, 300, 500, 800]"

definition tg_updateScore :: "TetrisScore \<Rightarrow> int \<Rightarrow> TetrisScore" where
  "tg_updateScore g linesCleared =
     (if linesCleared > 0 then
        let points = (if linesCleared < int (length pointsTable)
                      then Some (pointsTable ! nat linesCleared * tg_level g) else None);
            g1 = g\<lparr>tg_score := (case (tg_score g, points) of
                                    (Some s, Some p) \<Rightarrow> Some (s + p)
                                  | _ \<Rightarrow> None),
                    tg_lines := tg_lines g + linesCleared\<rparr>;
            newLevel = tg_lines g1 div 10 + 1
        in if newLevel > tg_level g1
           then g1\<lparr>tg_level := newLevel,
                    tg_dropInterval := max 100 (1000 - (newLevel - 1) * 100)\<rparr>
           else g1
      else g)"

text \<open>
  \<open>clearLines\<close> runs the loop from the bottom row and reports the count to \<open>updateScore\<close>
  when it is positive. \<open>placePiece\<close> locks the piece and clears lines; the
  \<open>spawnNewPiece\<close> that follows draws the next piece at random and leaves the board
  alone, so it is not part of the model.
\<close>

definition tg_clearLines ::
  "jsval list list \<Rightarrow> TetrisScore \<Rightarrow> (jsval list list \<times> TetrisScore) option" where
  "tg_clearLines brd g =
     (case clearLinesLoop brd (int BOARD_HEIGHT - 1) 0 of
        None \<Rightarrow> None
      | Some (brd', linesCleared) \<Rightarrow>
          if linesCleared > 0 then Some (brd', tg_updateScore g (int linesCleared))
          else Some (brd', g))"

definition tg_placePiece ::
  "jsval list list \<Rightarrow> TetrisScore \<Rightarrow> Piece \<Rightarrow> (jsval list list \<times> TetrisScore) option" where
  "tg_placePiece brd g piece =
     (case lockPiece brd piece of
        None \<Rightarrow> None
      | Some b \<Rightarrow> tg_clearLines b g)"


section \<open>Properties named by the specification\<close>

subsection \<open>Level and drop interval\<close>





subsection \<open>Pieces and matrices\<close>

text \<open>The seven type names, and the colour id the comments of \<open>getColorId\<close> give each.\<close>

definition typeNames :: "string list" where
  "typeNames = [''I'', ''O'', ''T'', ''S'', ''Z'', ''J'', ''L'']"

definition typeColorId :: "string \<rightharpoonup> nat" where
  "typeColorId =
     [''I'' \<mapsto> 1, ''O'' \<mapsto> 2, ''T'' \<mapsto> 3, ''S'' \<mapsto> 4, ''Z'' \<mapsto> 5, ''J'' \<mapsto> 6, ''L'' \<mapsto> 7]"

definition is4x4 :: "'a list list \<Rightarrow> bool" where
  "is4x4 m = (length m = 4 \<and> list_all (\<lambda>row. length row = 4) m)"

subsection \<open>Placement validity\<close>

text \<open>
  The specification's test: every filled cell of the shape maps to a board coordinate
  that is in bounds on both axes and empty. \<open>fits\<close> says it for the my-work board,
  \<open>tg_fits\<close> for the examples board. \<open>tg_fits_below_top\<close> is the test without the upper
  bound: a cell above the top row is accepted and its board cell is not looked at.
\<close>

definition fits :: "GameBoard \<Rightarrow> nat list list \<Rightarrow> int \<Rightarrow> int \<Rightarrow> bool" where
  "fits b shape x y =
     (\<forall>row<length shape. \<forall>col<length (shape ! row). shape ! row ! col \<noteq> 0 \<longrightarrow>
        0 \<le> y + int row \<and> y + int row < int (height b) \<and>
        0 \<le> x + int col \<and> x + int col < int (width b) \<and>
        board b ! nat (y + int row) ! nat (x + int col) = 0)"

definition tg_fits :: "jsval list list \<Rightarrow> Piece \<Rightarrow> int \<Rightarrow> int \<Rightarrow> bool" where
  "tg_fits brd piece dx dy =
     (\<forall>y<4. \<forall>x<4. pc_shape piece ! y ! x \<noteq> 0 \<longrightarrow>
        0 \<le> pc_y piece + dy + int y \<and> pc_y piece + dy + int y < int BOARD_HEIGHT \<and>
        0 \<le> pc_x piece + dx + int x \<and> pc_x piece + dx + int x < int BOARD_WIDTH \<and>
        \<not> truthy (brd ! nat (pc_y piece + dy + int y) ! nat (pc_x piece + dx + int x)))"

definition tg_fits_below_top :: "jsval list list \<Rightarrow> Piece \<Rightarrow> int \<Rightarrow> int \<Rightarrow> bool" where
  "tg_fits_below_top brd piece dx dy =
     (\<forall>y<4. \<forall>x<4. pc_shape piece ! y ! x \<noteq> 0 \<longrightarrow>
        pc_y piece + dy + int y < int BOARD_HEIGHT \<and>
        0 \<le> pc_x piece + dx + int x \<and> pc_x piece + dx + int x < int BOARD_WIDTH \<and>
        (0 \<le> pc_y piece + dy + int y \<longrightarrow>
           \<not> truthy (brd ! nat (pc_y piece + dy + int y) ! nat (pc_x piece + dx + int x))))"

text \<open>A filled shape cell whose board position, when its row is not negative, is on the board.\<close>

definition cellInRange :: "Piece \<Rightarrow> nat \<Rightarrow> nat \<Rightarrow> bool" where
  "cellInRange piece y x =
     (pc_shape piece ! y ! x \<noteq> 0 \<longrightarrow>
        pc_y piece + int y < int BOARD_HEIGHT \<and>
        0 \<le> pc_x piece + int x \<and> pc_x piece + int x < int BOARD_WIDTH)"

subsection \<open>Grids\<close>

text \<open>
  The grid invariant of the data model on the my-work board: \<open>height\<close> rows of \<open>width\<close>
  cells, each cell between 0 and 7.
\<close>

definition board_inv :: "GameBoard \<Rightarrow> bool" where
  "board_inv b =
     (length (board b) = height b \<and>
      list_all (\<lambda>row. length row = width b \<and> list_all (\<lambda>cell. cell \<le> 7) row) (board b))"

text \<open>
  On the examples board: the shape alone (\<open>boardShape\<close>); the data model's cell range
  (\<open>cellIn07\<close>: a number from 0 to 7); and what the cells do hold (\<open>colourCell\<close>: the number
  0 or a string).
\<close>

definition boardShape :: "jsval list list \<Rightarrow> bool" where
  "boardShape brd =
     (length brd = BOARD_HEIGHT \<and> list_all (\<lambda>row. length row = BOARD_WIDTH) brd)"

fun cellIn07 :: "jsval \<Rightarrow> bool" where
  "cellIn07 (Num n) = (0 \<le> n \<and> n \<le> 7)"
| "cellIn07 (Str s) = False"
| "cellIn07 Undefined = False"

fun colourCell :: "jsval \<Rightarrow> bool" where
  "colourCell (Num n) = (n = 0)"
| "colourCell (Str s) = True"
| "colourCell Undefined = False"

definition tg_board_inv :: "jsval list list \<Rightarrow> bool" where
  "tg_board_inv brd =
     (length brd = BOARD_HEIGHT \<and>
      list_all (\<lambda>row. length row = BOARD_WIDTH \<and> list_all colourCell row) brd)"

text \<open>The empty row that \<open>clearLines\<close> pushes on top, and the number of cells that are not 0.\<close>

definition emptyRow :: "jsval list" where
  "emptyRow = replicate BOARD_WIDTH (Num 0)"

definition filledCells :: "jsval list list \<Rightarrow> nat" where
  "filledCells brd = sum_list (map (\<lambda>row. length (filter (\<lambda>cell. cell \<noteq> Num 0) row)) brd)"

subsection \<open>Concrete pieces and boards\<close>

text \<open>
  The O piece of each variant as its constructor builds it; an I piece and a T piece of
  the examples variant two rows above their spawn row.
\<close>

definition O_piece :: Tetromino where
  "O_piece = \<lparr>type = ''O'', rotation = 0,
              tetrominoData = \<lparr>shapes = [[[1,1],[1,1]], [[1,1],[1,1]], [[1,1],[1,1]], [[1,1],[1,1]]],
                               color = ''#f0f000''\<rparr>\<rparr>"

definition T_piece :: Tetromino where
  "T_piece = \<lparr>type = ''T'', rotation = 1,
              tetrominoData = \<lparr>shapes = [[[0,1,0],[1,1,1]], [[1,0],[1,1],[1,0]],
                                         [[1,1,1],[0,1,0]], [[0,1],[1,1],[0,1]]],
                               color = ''#a000f0''\<rparr>\<rparr>"

definition O_spawn :: Piece where
  "O_spawn = \<lparr>pc_shape = [[0,0,0,0],[0,1,1,0],[0,1,1,0],[0,0,0,0]], pc_color = ''#ffff00'',
              pc_x = 3, pc_y = 0\<rparr>"

definition I_above :: Piece where
  "I_above = \<lparr>pc_shape = [[0,0,0,0],[1,1,1,1],[0,0,0,0],[0,0,0,0]], pc_color = ''#00f5ff'',
              pc_x = 3, pc_y = - 2\<rparr>"

definition T_above :: Piece where
  "T_above = \<lparr>pc_shape = [[0,0,0,0],[0,1,0,0],[1,1,1,0],[0,0,0,0]], pc_color = ''#800080'',
              pc_x = 3, pc_y = - 2\<rparr>"

text \<open>
  A 10x20 board with rows 18 and 19 filled in columns 0 to 7 and one cell in row 17; the
  same board after an O piece has been placed in columns 8 and 9 of rows 18 and 19, which
  completes both rows; and the board \<open>clearLines\<close> then leaves. \<open>tg_after_drop\<close> is the
  second board with the cells of the examples variant.
\<close>

definition before_drop :: GameBoard where
  "before_drop = \<lparr>width = 10, height = 20,
                  board = replicate 17 (replicate 10 0)
                          @ [[3,0,0,0,0,0,0,0,0,0],
                             [1,1,1,1,1,1,1,1,0,0],
                             [1,1,1,1,1,1,1,1,0,0]]\<rparr>"

definition after_drop :: GameBoard where
  "after_drop = \<lparr>width = 10, height = 20,
                 board = replicate 17 (replicate 10 0)
                         @ [[3,0,0,0,0,0,0,0,0,0],
                            [1,1,1,1,1,1,1,1,2,2],
                            [1,1,1,1,1,1,1,1,2,2]]\<rparr>"

definition after_clear :: GameBoard where
  "after_clear = \<lparr>width = 10, height = 20,
                  board = replicate 19 (replicate 10 0) @ [[1,1,1,1,1,1,1,1,2,2]]\<rparr>"

definition tg_after_drop :: "jsval list list" where
  "tg_after_drop = replicate 17 (replicate 10 (Num 0))
                   @ [Str ''#800080'' # replicate 9 (Num 0),
                      replicate 8 (Str ''#00f5ff'') @ replicate 2 (Str ''#ffff00''),
                      replicate 8 (Str ''#00f5ff'') @ replicate 2 (Str ''#ffff00'')]"

section \<open>Scoring\<close>




section \<open>Lines and level\<close>







section \<open>Drop interval\<close>











section \<open>Status flags\<close>

lemma call_over_inv: "over_inv s \<Longrightarrow> over_inv (call s c)"
  by (cases c)
     (auto simp: over_inv_def reset_def setPaused_def setGameOver_def setRunning_def
        updateScore_def addLines_def awardSoftDropPoints_def awardHardDropPoints_def
        processLineClear_def fixInvalidState_def Let_def split: prod.splits)

lemma foldl_over_inv: "over_inv s \<Longrightarrow> over_inv (foldl call s cs)"
  by (induction cs arbitrary: s) (simp_all add: call_over_inv)

lemma call_paused_inv:
  "paused_inv s \<Longrightarrow> over_inv s \<Longrightarrow>
   (c = SetPaused True \<longrightarrow> isRunning s \<or> isGameOver s) \<Longrightarrow>
   (c = SetRunning False \<longrightarrow> \<not> isPaused s) \<Longrightarrow> paused_inv (call s c)"
  by (cases c)
     (auto simp: over_inv_def paused_inv_def reset_def setPaused_def setGameOver_def
        setRunning_def updateScore_def addLines_def awardSoftDropPoints_def
        awardHardDropPoints_def processLineClear_def fixInvalidState_def Let_def
        split: prod.splits)

text \<open>
  C8, as stated, fails: on a freshly constructed state, which is not running,
  \<open>setPaused(true)\<close> sets the paused flag; the state is then paused and not running.
\<close>

theorem status_invariant_counterexample:
  "\<not> paused_inv (run [SetPaused True])"
  by (simp add: run_def paused_inv_def newGameState_def setPaused_def)

text \<open>
  C8, amended. Every state reached from a new \<open>GameState\<close> by any sequence of calls
  satisfies: game over implies not running and not paused. The other half, paused implies
  running, is kept by every call except \<open>setPaused(true)\<close> on a state that is neither
  running nor over and \<open>setRunning(false)\<close> on a paused state.
\<close>

theorem status_invariant:
  "over_inv (run cs) \<and>
   (paused_inv s \<and> over_inv s \<and> (c = SetPaused True \<longrightarrow> isRunning s \<or> isGameOver s) \<and>
      (c = SetRunning False \<longrightarrow> \<not> isPaused s)
    \<longrightarrow> paused_inv (call s c) \<and> over_inv (call s c))"
proof -
  have "over_inv newGameState" by (simp add: over_inv_def newGameState_def)
  then have a: "over_inv (run cs)" unfolding run_def by (rule foldl_over_inv)
  from a call_paused_inv call_over_inv show ?thesis by blast
qed

theorem status_invariant_witness:
  "over_inv (run [SetRunning True, SetPaused True, SetGameOver True]) \<and>
   isGameOver (run [SetRunning True, SetPaused True, SetGameOver True]) \<and>
   paused_inv (run [SetRunning True]) \<and> over_inv (run [SetRunning True]) \<and>
   isRunning (run [SetRunning True]) \<and>
   paused_inv (call (run [SetRunning True]) (SetPaused True)) \<and>
   isPaused (call (run [SetRunning True]) (SetPaused True))"
  using status_invariant [of "[SetRunning True, SetPaused True, SetGameOver True]"
                            "run [SetRunning True]" "SetPaused True"]
  by (simp add: run_def newGameState_def setRunning_def setPaused_def setGameOver_def
        paused_inv_def over_inv_def)

section \<open>Rotation\<close>

lemma TETROMINO_TYPES_cases:
  assumes "TETROMINO_TYPES t = Some d"
  shows "t \<in> {''I'', ''O'', ''T'', ''S'', ''Z'', ''J'', ''L''}"
  using assms by (auto simp: TETROMINO_TYPES_def split: if_splits)

lemma upt4: "[0..<4] = [0, 1, 2, 3]"
  by (simp add: upt_rec)

lemma less4_cases: "r < 4 \<Longrightarrow> r = 0 \<or> r = 1 \<or> r = 2 \<or> r = (3::nat)"
  by arith

lemma table_validate_all:
  "list_all (\<lambda>t. case TETROMINO_TYPES t of
                      None \<Rightarrow> False
                    | Some d \<Rightarrow> length (shapes d) = 4 \<and>
                        list_all (\<lambda>r. validateCurrentShape
                                        \<lparr>type = t, rotation = r, tetrominoData = d\<rparr>) [0..<4])
            typeNames"
  by (simp add: typeNames_def TETROMINO_TYPES_def validateCurrentShape_def getShape_def upt4)

lemma table_validate:
  assumes "TETROMINO_TYPES t = Some d" "r < 4"
  shows "length (shapes d) = 4"
    and "validateCurrentShape \<lparr>type = t, rotation = r, tetrominoData = d\<rparr>"
proof -
  have "t \<in> set typeNames"
    using TETROMINO_TYPES_cases [OF assms(1)] by (simp add: typeNames_def)
  with table_validate_all assms(1)
  have *: "length (shapes d) = 4 \<and>
        list_all (\<lambda>r. validateCurrentShape \<lparr>type = t, rotation = r, tetrominoData = d\<rparr>) [0..<4]"
    by (auto simp: list_all_iff)
  then show "length (shapes d) = 4" by simp
  from * assms(2) show "validateCurrentShape \<lparr>type = t, rotation = r, tetrominoData = d\<rparr>"
    by (simp add: list_all_iff)
qed

lemma valid_piece_validate:
  assumes "valid_piece p"
  shows "validateCurrentShape p"
proof -
  from assms have d: "TETROMINO_TYPES (type p) = Some (tetrominoData p)" and r: "rotation p < 4"
    by (simp_all add: valid_piece_def)
  have e: "\<lparr>type = type p, rotation = rotation p, tetrominoData = tetrominoData p\<rparr> = p"
    by simp
  show ?thesis using table_validate(2) [OF d r] unfolding e .
qed

lemma rotate_valid:
  assumes "valid_piece p"
  shows "rotate_piece p = Some (p\<lparr>rotation := (rotation p + 1) mod 4\<rparr>)
       \<and> valid_piece (p\<lparr>rotation := (rotation p + 1) mod 4\<rparr>)"
proof -
  have v: "valid_piece (p\<lparr>rotation := (rotation p + 1) mod 4\<rparr>)"
    using assms by (simp add: valid_piece_def)
  then have "validateCurrentShape (p\<lparr>rotation := (rotation p + 1) mod 4\<rparr>)"
    by (rule valid_piece_validate)
  with v show ?thesis by (simp add: rotate_piece_def Let_def)
qed

lemma length4E:
  assumes "length xs = 4"
  obtains a b c d where "xs = [a, b, c, d]"
  using assms by (auto simp: length_Suc_conv eval_nat_numeral)

lemma rotateMatrix_4x4:
  "rotateMatrix [[a0,a1,a2,a3],[b0,b1,b2,b3],[c0,c1,c2,c3],[d0,d1,d2,d3]]
   = [[d0,c0,b0,a0],[d1,c1,b1,a1],[d2,c2,b2,a2],[d3,c3,b3,a3]]"
  by (simp add: rotateMatrix_def upt4 eval_nat_numeral)

lemma rotateMatrix_four:
  assumes "is4x4 m"
  shows "rotateMatrix (rotateMatrix (rotateMatrix (rotateMatrix m))) = m"
proof -
  from assms have l: "length m = 4" by (simp add: is4x4_def)
  then obtain r0 r1 r2 r3 where m: "m = [r0, r1, r2, r3]" by (rule length4E)
  with assms have "length r0 = 4" "length r1 = 4" "length r2 = 4" "length r3 = 4"
    by (simp_all add: is4x4_def)
  then obtain a0 a1 a2 a3 b0 b1 b2 b3 c0 c1 c2 c3 d0 d1 d2 d3 where
    "r0 = [a0,a1,a2,a3]" "r1 = [b0,b1,b2,b3]" "r2 = [c0,c1,c2,c3]" "r3 = [d0,d1,d2,d3]"
    by (metis length4E)
  with m show ?thesis by (simp add: rotateMatrix_4x4)
qed

lemma createPiece_4x4:
  assumes "createPiece name = Some pc"
  shows "is4x4 (pc_shape pc)"
  using assms
  by (auto simp: createPiece_def TETROMINOS_def is4x4_def split: if_splits)

lemma rotateMatrix_is4x4:
  assumes "is4x4 m"
  shows "is4x4 (rotateMatrix m)"
proof -
  from assms have l: "length m = 4" by (simp add: is4x4_def)
  then obtain r0 r1 r2 r3 where m: "m = [r0, r1, r2, r3]" by (rule length4E)
  with assms have "length r0 = 4" "length r1 = 4" "length r2 = 4" "length r3 = 4"
    by (simp_all add: is4x4_def)
  then obtain a0 a1 a2 a3 b0 b1 b2 b3 c0 c1 c2 c3 d0 d1 d2 d3 where
    "r0 = [a0,a1,a2,a3]" "r1 = [b0,b1,b2,b3]" "r2 = [c0,c1,c2,c3]" "r3 = [d0,d1,d2,d3]"
    by (metis length4E)
  with m show ?thesis by (simp add: rotateMatrix_4x4 is4x4_def)
qed

text \<open>
  C6. Four clockwise rotations restore a piece. In the my-work variant, for a piece of
  any of the seven types in any of its four rotation states, four calls of \<open>rotate\<close>
  succeed and return the piece with its rotation index, and so its shape, as before. In
  the examples variant a piece has no rotation index; its shape is a 4x4 matrix (as
  \<open>createPiece\<close> builds it and \<open>rotateMatrix\<close> keeps it), and four applications of
  \<open>rotateMatrix\<close> to a 4x4 matrix return the matrix itself.
\<close>

theorem rotate_four_times:
  "(valid_piece p \<longrightarrow>
      Option.bind (Option.bind (Option.bind (rotate_piece p) rotate_piece) rotate_piece) rotate_piece = Some p) \<and>
   (createPiece name = Some pc \<longrightarrow> is4x4 (pc_shape pc)) \<and>
   (is4x4 m \<longrightarrow> is4x4 (rotateMatrix m) \<and>
      rotateMatrix (rotateMatrix (rotateMatrix (rotateMatrix m))) = m)"
proof -
  have "Option.bind (Option.bind (Option.bind (rotate_piece p) rotate_piece) rotate_piece) rotate_piece = Some p"
    if v: "valid_piece p"
  proof -
    let ?p1 = "p\<lparr>rotation := (rotation p + 1) mod 4\<rparr>"
    let ?p2 = "?p1\<lparr>rotation := (rotation ?p1 + 1) mod 4\<rparr>"
    let ?p3 = "?p2\<lparr>rotation := (rotation ?p2 + 1) mod 4\<rparr>"
    let ?p4 = "?p3\<lparr>rotation := (rotation ?p3 + 1) mod 4\<rparr>"
    have 1: "rotate_piece p = Some ?p1" "valid_piece ?p1" using rotate_valid [OF v] by simp_all
    have 2: "rotate_piece ?p1 = Some ?p2" "valid_piece ?p2" using rotate_valid [OF 1(2)] by simp_all
    have 3: "rotate_piece ?p2 = Some ?p3" "valid_piece ?p3" using rotate_valid [OF 2(2)] by simp_all
    have 4: "rotate_piece ?p3 = Some ?p4" using rotate_valid [OF 3(2)] by simp_all
    have "rotation p < 4" using v by (simp add: valid_piece_def)
    then have "(rotation p + 4) mod 4 = rotation p" by simp
    then have "?p4 = p" by (simp add: mod_Suc_eq Suc_eq_plus1 [symmetric] mod_simps) 
    with 1 2 3 4 show ?thesis by simp
  qed
  with rotateMatrix_four rotateMatrix_is4x4 createPiece_4x4 show ?thesis by blast
qed

theorem rotate_four_times_witness:
  "valid_piece T_piece \<and>
   Option.bind (Option.bind (Option.bind (rotate_piece T_piece) rotate_piece) rotate_piece)
     rotate_piece = Some T_piece \<and>
   createPiece ''T'' = Some (T_above\<lparr>pc_y := 0\<rparr>) \<and>
   is4x4 (pc_shape (T_above\<lparr>pc_y := 0\<rparr>)) \<and>
   rotateMatrix (pc_shape T_above) = [[0,1,0,0],[0,1,1,0],[0,1,0,0],[0,0,0,0]] \<and>
   rotateMatrix (rotateMatrix (rotateMatrix (rotateMatrix (pc_shape T_above))))
     = pc_shape T_above"
proof -
  have v: "valid_piece T_piece"
    by (simp add: valid_piece_def T_piece_def TETROMINO_TYPES_def)
  have c: "createPiece ''T'' = Some (T_above\<lparr>pc_y := 0\<rparr>)"
    by (simp add: createPiece_def TETROMINOS_def T_above_def BOARD_WIDTH_def)
  have m: "is4x4 (pc_shape T_above)"
    by (simp add: is4x4_def T_above_def)
  have r: "rotateMatrix (pc_shape T_above) = [[0,1,0,0],[0,1,1,0],[0,1,0,0],[0,0,0,0]]"
    by (simp add: T_above_def rotateMatrix_4x4)
  from rotate_four_times [of T_piece "''T''" "T_above\<lparr>pc_y := 0\<rparr>" "pc_shape T_above"] v c m r
  show ?thesis by simp
qed

section \<open>Placement validity\<close>

lemma valid_piece_shape:
  assumes "valid_piece p"
  obtains shape where "getShape p = Some shape" "shape \<noteq> []"
    "\<forall>row<length shape. length (shape ! row) = length (shape ! 0)"
    "\<forall>row<length shape. \<forall>col<length (shape ! row). shape ! row ! col = 0 \<or> shape ! row ! col = 1"
proof -
  have v: "validateCurrentShape p" using assms by (rule valid_piece_validate)
  then obtain shape where s: "getShape p = Some shape"
    by (cases "getShape p") (simp_all add: validateCurrentShape_def)
  from v s have n: "shape \<noteq> []"
    by (simp add: validateCurrentShape_def split: if_splits)
  from v s n have a: "list_all (\<lambda>row. length row = length (shape ! 0)
                                    \<and> list_all (\<lambda>cell. cell = 0 \<or> cell = 1) row) shape"
    by (simp add: validateCurrentShape_def Let_def split: if_splits)
  then have 1: "\<forall>row<length shape. length (shape ! row) = length (shape ! 0)"
    by (simp add: list_all_length)
  from a have 2: "\<forall>row<length shape. \<forall>col<length (shape ! row).
                     shape ! row ! col = 0 \<or> shape ! row ! col = 1"
    by (simp add: list_all_length)
  from s n 1 2 show ?thesis by (rule that)
qed

lemma list_all_upt: "list_all P [0..<n] \<longleftrightarrow> (\<forall>i<n. P i)"
  by (auto simp: list_all_iff)

lemma list_ex_upt: "list_ex P [0..<n] \<longleftrightarrow> (\<exists>i<n. P i)"
  by (auto simp: list_ex_iff)

lemma all_less_cong: "(\<And>i. i < n \<Longrightarrow> P i \<longleftrightarrow> Q i) \<Longrightarrow> (\<forall>i<n. P i) \<longleftrightarrow> (\<forall>i<(n::nat). Q i)"
  by auto

lemma isValidPosition_fits:
  assumes "getShape p = Some shape" "shape \<noteq> []"
  shows "isValidPosition b p x y \<longleftrightarrow> fits b shape x y"
proof -
  have "isValidPosition b p x y \<longleftrightarrow>
     (\<forall>row<length shape. \<forall>col<length (shape ! row).
        if shape ! row ! col = 0 then True
        else if \<not> isInBounds b (y + int row) (x + int col) then False
        else if isFilled b (y + int row) (x + int col) then False else True)"
    using assms by (simp add: isValidPosition_def list_all_upt Let_def)
  also have "\<dots> \<longleftrightarrow> fits b shape x y"
    unfolding fits_def
    by (intro all_less_cong)
       (auto simp: isInBounds_def isFilled_def getCellValue_def)
  finally show ?thesis .
qed

lemma checkCollision_iff:
  "\<not> checkCollision brd piece dx dy \<longleftrightarrow> tg_fits_below_top brd piece dx dy"
proof -
  have "\<not> checkCollision brd piece dx dy \<longleftrightarrow>
     (\<forall>y<4. \<forall>x<4. \<not> (pc_shape piece ! y ! x \<noteq> 0 \<and>
          ((pc_x piece + dx + int x < 0 \<or> pc_x piece + dx + int x \<ge> int BOARD_WIDTH
             \<or> pc_y piece + dy + int y \<ge> int BOARD_HEIGHT)
           \<or> (pc_y piece + dy + int y \<ge> 0
               \<and> truthy (brd ! nat (pc_y piece + dy + int y) ! nat (pc_x piece + dx + int x))))))"
    by (simp add: checkCollision_def list_ex_upt Let_def)
  also have "\<dots> \<longleftrightarrow> tg_fits_below_top brd piece dx dy"
    unfolding tg_fits_below_top_def
    by (intro all_less_cong) auto
  finally show ?thesis .
qed

lemma all_less4: "(\<forall>i<4. P i) \<longleftrightarrow> P 0 \<and> P 1 \<and> P 2 \<and> P (3::nat)"
  by (auto simp: eval_nat_numeral less_Suc_eq)

text \<open>
  C2, as stated, fails in the examples variant: on the empty board an I piece whose filled
  row lies at board row -1 is not reported as a collision, although its cells are out of
  bounds above the board.
\<close>

theorem placement_validity_counterexample:
  "\<not> checkCollision createEmptyBoard I_above 0 0 \<and> \<not> tg_fits createEmptyBoard I_above 0 0"
  by (simp add: checkCollision_def tg_fits_def I_above_def upt4 BOARD_WIDTH_def BOARD_HEIGHT_def
        all_less4)

text \<open>
  C2, amended. \<open>GameBoard.isValidPosition\<close> of a constructed piece is true exactly when
  every filled cell of the current shape maps to a board coordinate in bounds on both
  axes and empty. \<open>TetrisGame.checkCollision\<close> is false exactly when every filled cell
  maps to a column on the board and a row not below the bottom row, and to an empty board
  cell when its row is not negative; a cell above the top row is not rejected.
\<close>

theorem placement_validity:
  "(validateBoard b \<and> valid_piece p \<longrightarrow>
      (\<exists>shape. getShape p = Some shape \<and> (isValidPosition b p x y \<longleftrightarrow> fits b shape x y))) \<and>
   (boardShape brd \<and> is4x4 (pc_shape piece) \<longrightarrow>
      (\<not> checkCollision brd piece dx dy \<longleftrightarrow> tg_fits_below_top brd piece dx dy))"
proof -
  have "\<exists>shape. getShape p = Some shape \<and> (isValidPosition b p x y \<longleftrightarrow> fits b shape x y)"
    if "valid_piece p"
  proof -
    from that obtain shape where "getShape p = Some shape" "shape \<noteq> []"
      by (rule valid_piece_shape)
    then show ?thesis using isValidPosition_fits by blast
  qed
  with checkCollision_iff show ?thesis by blast
qed

theorem placement_validity_witness:
  "validateBoard before_drop \<and> valid_piece O_piece \<and>
   getShape O_piece = Some [[1,1],[1,1]] \<and>
   isValidPosition before_drop O_piece 8 18 \<and> fits before_drop [[1,1],[1,1]] 8 18 \<and>
   \<not> isValidPosition before_drop O_piece 7 18 \<and> \<not> fits before_drop [[1,1],[1,1]] 7 18 \<and>
   boardShape createEmptyBoard \<and> is4x4 (pc_shape O_spawn) \<and>
   \<not> checkCollision createEmptyBoard O_spawn 0 1 \<and>
   tg_fits_below_top createEmptyBoard O_spawn 0 1"
proof -
  have e: "validateBoard before_drop" "getShape O_piece = Some [[1,1],[1,1]]"
    "isValidPosition before_drop O_piece 8 18" "\<not> isValidPosition before_drop O_piece 7 18"
    "boardShape createEmptyBoard" "is4x4 (pc_shape O_spawn)"
    "\<not> checkCollision createEmptyBoard O_spawn 0 1"
    by code_simp+
  have v: "valid_piece O_piece"
    by (simp add: valid_piece_def O_piece_def TETROMINO_TYPES_def)
  from placement_validity [of before_drop O_piece 8 18 createEmptyBoard O_spawn 0 1]
       placement_validity [of before_drop O_piece 7 18 createEmptyBoard O_spawn 0 1] e v
  show ?thesis by simp
qed

section \<open>Placing a piece\<close>

lemma setCellValue_props:
  assumes "validateBoard b"
  shows "validateBoard (fst (setCellValue b r c v))"
    and "width (fst (setCellValue b r c v)) = width b"
    and "height (fst (setCellValue b r c v)) = height b"
    and "i < height b \<Longrightarrow> j < width b \<Longrightarrow>
         board (fst (setCellValue b r c v)) ! i ! j
           = (if int i = r \<and> int j = c then v else board b ! i ! j)"
proof -
  show "validateBoard (fst (setCellValue b r c v))"
    using assms
    by (auto simp: setCellValue_def validateBoard_def list_all_iff dest!: set_update_subset_insert [THEN subsetD])
  show "width (fst (setCellValue b r c v)) = width b"
    by (simp add: setCellValue_def)
  show "height (fst (setCellValue b r c v)) = height b"
    by (simp add: setCellValue_def)
  show "board (fst (setCellValue b r c v)) ! i ! j
           = (if int i = r \<and> int j = c then v else board b ! i ! j)"
    if "i < height b" "j < width b"
  proof (cases "r < 0 \<or> r \<ge> int (height b) \<or> c < 0 \<or> c \<ge> int (width b)")
    case True
    with that show ?thesis by (auto simp: setCellValue_def)
  next
    case False
    then obtain nr nc where rc: "r = int nr" "c = int nc"
      by (metis not_le int_nat_eq not_less)
    with False have lt: "nr < height b" "nc < width b" by simp_all
    then have c: "nc < length (board b ! nr)" and r: "nr < length (board b)"
      using assms by (auto simp: validateBoard_def list_all_iff)
    from False rc have "board (fst (setCellValue b r c v))
        = (board b)[nr := (board b ! nr)[nc := v]]"
      by (simp add: setCellValue_def)
    with r c rc show ?thesis
      by (auto simp: nth_list_update)
  qed
qed

lemma place_cols:
  fixes shapeRow :: "nat list" and boardRow x :: int and v :: nat
  assumes "validateBoard b"
  defines "f \<equiv> (\<lambda>b col. if shapeRow ! col = 1
                          then fst (setCellValue b boardRow (x + int col) v) else b)"
  shows "validateBoard (foldl f b cs) \<and> width (foldl f b cs) = width b
       \<and> height (foldl f b cs) = height b
       \<and> (\<forall>i<height b. \<forall>j<width b. board (foldl f b cs) ! i ! j
            = (if int i = boardRow \<and> (\<exists>col\<in>set cs. shapeRow ! col = 1 \<and> int j = x + int col)
               then v else board b ! i ! j))"
  using assms(1)
proof (induction cs arbitrary: b)
  case Nil
  then show ?case by simp
next
  case (Cons c cs)
  have v1: "validateBoard (f b c)" and w1: "width (f b c) = width b"
    and h1: "height (f b c) = height b"
    using Cons.prems by (simp_all add: f_def setCellValue_props)
  have c1: "board (f b c) ! i ! j
      = (if int i = boardRow \<and> shapeRow ! c = 1 \<and> int j = x + int c then v else board b ! i ! j)"
    if "i < height b" "j < width b" for i j
    using that Cons.prems by (simp add: f_def setCellValue_props)
  from Cons.IH [OF v1] w1 h1 c1 show ?case by auto
qed

lemma placeRow_props:
  assumes "validateBoard b"
  shows "validateBoard (placeRow b shapeRow v x boardRow)"
    and "width (placeRow b shapeRow v x boardRow) = width b"
    and "height (placeRow b shapeRow v x boardRow) = height b"
    and "i < height b \<Longrightarrow> j < width b \<Longrightarrow>
         board (placeRow b shapeRow v x boardRow) ! i ! j
           = (if int i = boardRow \<and> (\<exists>col<length shapeRow. shapeRow ! col = 1 \<and> int j = x + int col)
              then v else board b ! i ! j)"
  using place_cols [OF assms, of shapeRow boardRow x v "[0..<length shapeRow]"]
  by (auto simp: placeRow_def)

lemma place_rows:
  fixes shape :: "nat list list" and x y :: int and v :: nat
  assumes "validateBoard b"
  defines "f \<equiv> (\<lambda>b row. placeRow b (shape ! row) v x (y + int row))"
  shows "validateBoard (foldl f b rs) \<and> width (foldl f b rs) = width b
       \<and> height (foldl f b rs) = height b
       \<and> (\<forall>i<height b. \<forall>j<width b. board (foldl f b rs) ! i ! j
            = (if \<exists>row\<in>set rs. int i = y + int row
                    \<and> (\<exists>col<length (shape ! row). shape ! row ! col = 1 \<and> int j = x + int col)
               then v else board b ! i ! j))"
  using assms(1)
proof (induction rs arbitrary: b)
  case Nil
  then show ?case by simp
next
  case (Cons r rs)
  have v1: "validateBoard (f b r)" and w1: "width (f b r) = width b"
    and h1: "height (f b r) = height b"
    using Cons.prems by (simp_all add: f_def placeRow_props)
  have c1: "board (f b r) ! i ! j
      = (if int i = y + int r \<and> (\<exists>col<length (shape ! r). shape ! r ! col = 1 \<and> int j = x + int col)
         then v else board b ! i ! j)"
    if "i < height b" "j < width b" for i j
    using that Cons.prems by (simp add: f_def placeRow_props)
  from Cons.IH [OF v1] w1 h1 c1 show ?case by auto
qed

lemma placeCells_props:
  assumes "validateBoard b"
  shows "validateBoard (placeCells b shape v x y)"
    and "width (placeCells b shape v x y) = width b"
    and "height (placeCells b shape v x y) = height b"
    and "i < height b \<Longrightarrow> j < width b \<Longrightarrow>
         board (placeCells b shape v x y) ! i ! j
           = (if \<exists>row<length shape. int i = y + int row
                   \<and> (\<exists>col<length (shape ! row). shape ! row ! col = 1 \<and> int j = x + int col)
              then v else board b ! i ! j)"
  using place_rows [OF assms, of shape v x y "[0..<length shape]"]
  by (auto simp: placeCells_def)

lemma colorId_table:
  "list_all (\<lambda>t. case TETROMINO_TYPES t of
                      None \<Rightarrow> False
                    | Some d \<Rightarrow> typeColorId t = Some (getColorId (color d)))
            typeNames"
  by (simp add: typeNames_def TETROMINO_TYPES_def typeColorId_def getColorId_def colorMap_def)

lemma valid_piece_colorId:
  assumes "valid_piece p"
  shows "typeColorId (type p) = Some (getColorId (getColor p))"
    and "1 \<le> getColorId (getColor p)" and "getColorId (getColor p) \<le> 7"
proof -
  from assms have d: "TETROMINO_TYPES (type p) = Some (tetrominoData p)"
    by (simp add: valid_piece_def)
  then have "type p \<in> set typeNames"
    using TETROMINO_TYPES_cases [OF d] by (simp add: typeNames_def)
  with colorId_table d show 1: "typeColorId (type p) = Some (getColorId (getColor p))"
    by (auto simp: list_all_iff getColor_def)
  then show "1 \<le> getColorId (getColor p)" "getColorId (getColor p) \<le> 7"
    by (auto simp: typeColorId_def split: if_splits)
qed

lemma isBlockAt_iff:
  assumes "getShape p = Some shape"
    and "\<forall>row<length shape. length (shape ! row) = length (shape ! 0)"
  shows "isBlockAt p r c \<longleftrightarrow>
         (\<exists>row<length shape. r = int row
            \<and> (\<exists>col<length (shape ! row). shape ! row ! col = 1 \<and> c = int col))"
proof
  assume a: "isBlockAt p r c"
  with assms(1) have r: "0 \<le> r" "r < int (length shape)" and c: "0 \<le> c" "c < int (length (shape ! 0))"
    and v: "shape ! nat r ! nat c = 1"
    by (auto simp: isBlockAt_def split: if_splits)
  from r have nr: "nat r < length shape" by simp
  with assms(2) c have nc: "nat c < length (shape ! nat r)" by simp
  from nr nc v r c show "\<exists>row<length shape. r = int row
            \<and> (\<exists>col<length (shape ! row). shape ! row ! col = 1 \<and> c = int col)"
    by (intro exI [of _ "nat r"] conjI exI [of _ "nat c"]) simp_all
next
  assume "\<exists>row<length shape. r = int row
            \<and> (\<exists>col<length (shape ! row). shape ! row ! col = 1 \<and> c = int col)"
  then obtain row col where "row < length shape" "r = int row" "col < length (shape ! row)"
    "shape ! row ! col = 1" "c = int col" by blast
  with assms show "isBlockAt p r c" by (simp add: isBlockAt_def)
qed

lemma placeCells_isBlockAt:
  assumes "validateBoard b" "getShape p = Some shape"
    and "\<forall>row<length shape. length (shape ! row) = length (shape ! 0)"
    and "i < height b" "j < width b"
  shows "board (placeCells b shape v x y) ! i ! j
           = (if isBlockAt p (int i - y) (int j - x) then v else board b ! i ! j)"
proof -
  have "(\<exists>row<length shape. int i = y + int row
                   \<and> (\<exists>col<length (shape ! row). shape ! row ! col = 1 \<and> int j = x + int col))
        \<longleftrightarrow> isBlockAt p (int i - y) (int j - x)"
    unfolding isBlockAt_iff [OF assms(2,3)]
    by (auto simp: algebra_simps)
  with placeCells_props(4) [OF assms(1,4,5), of shape v x y] show ?thesis by simp
qed

text \<open>
  C7. On a board that passes \<open>validateBoard\<close> and for a constructed piece:
  when \<open>isValidPosition\<close> is false, \<open>placePiece\<close> returns \<open>false\<close> and the board is
  unchanged; when it is true, \<open>placePiece\<close> returns \<open>true\<close>, keeps the dimensions, and the
  new grid holds the colour id of the piece's type at exactly the cells \<open>(i, j)\<close> with
  \<open>isBlockAt(i - y, j - x)\<close> and the old value everywhere else; every filled cell of the
  piece lies on the board, so all of them are written.
\<close>

theorem place_piece:
  assumes "validateBoard b" and "valid_piece p"
  shows "(\<not> isValidPosition b p x y \<longrightarrow> placePiece b p x y = (b, False)) \<and>
         (isValidPosition b p x y \<longrightarrow>
            snd (placePiece b p x y) \<and>
            validateBoard (fst (placePiece b p x y)) \<and>
            width (fst (placePiece b p x y)) = width b \<and>
            height (fst (placePiece b p x y)) = height b \<and>
            typeColorId (type p) = Some (getColorId (getColor p)) \<and>
            (\<forall>i<height b. \<forall>j<width b.
               board (fst (placePiece b p x y)) ! i ! j
                 = (if isBlockAt p (int i - y) (int j - x) then getColorId (getColor p)
                    else board b ! i ! j)) \<and>
            (\<forall>r c. isBlockAt p r c \<longrightarrow>
               0 \<le> y + r \<and> y + r < int (height b) \<and> 0 \<le> x + c \<and> x + c < int (width b)))"
proof -
  from assms(2) obtain shape where s: "getShape p = Some shape" "shape \<noteq> []"
    and rect: "\<forall>row<length shape. length (shape ! row) = length (shape ! 0)"
    by (rule valid_piece_shape)
  have a: "\<not> isValidPosition b p x y \<longrightarrow> placePiece b p x y = (b, False)"
    by (simp add: placePiece_def)
  have pp: "placePiece b p x y = (placeCells b shape (getColorId (getColor p)) x y, True)"
    if "isValidPosition b p x y"
    using that s by (simp add: placePiece_def)
  have inb: "0 \<le> y + r \<and> y + r < int (height b) \<and> 0 \<le> x + c \<and> x + c < int (width b)"
    if valid: "isValidPosition b p x y" and blk: "isBlockAt p r c" for r c
  proof -
    from blk obtain row col where rc: "row < length shape" "r = int row"
      "col < length (shape ! row)" "shape ! row ! col = 1" "c = int col"
      unfolding isBlockAt_iff [OF s(1) rect] by blast
    from valid have "fits b shape x y" using isValidPosition_fits [OF s] by simp
    with rc show ?thesis by (auto simp: fits_def)
  qed
  show ?thesis
    using a pp inb placeCells_props(1,2,3) [OF assms(1)]
          placeCells_isBlockAt [OF assms(1) s(1) rect] valid_piece_colorId(1) [OF assms(2)]
    by auto
qed

theorem place_piece_witness:
  "validateBoard before_drop \<and> validateBoard after_drop \<and> valid_piece O_piece \<and>
   isValidPosition before_drop O_piece 8 18 \<and>
   placePiece before_drop O_piece 8 18 = (after_drop, True) \<and>
   typeColorId ''O'' = Some 2 \<and> getColorId (getColor O_piece) = 2 \<and>
   \<not> isValidPosition after_drop O_piece 8 18 \<and>
   placePiece after_drop O_piece 8 18 = (after_drop, False)"
proof -
  have e: "validateBoard before_drop" "validateBoard after_drop"
    "isValidPosition before_drop O_piece 8 18" "\<not> isValidPosition after_drop O_piece 8 18"
    "placePiece before_drop O_piece 8 18 = (after_drop, True)"
    by code_simp+
  have v: "valid_piece O_piece"
    by (simp add: valid_piece_def O_piece_def TETROMINO_TYPES_def)
  have t: "type O_piece = ''O''" by (simp add: O_piece_def)
  from place_piece [OF e(1) v, of 8 18] place_piece [OF e(2) v, of 8 18] e v t
  show ?thesis by (simp add: typeColorId_def)
qed

section \<open>Line clearing\<close>

lemma update_take_drop:
  assumes "k < length s" "k < length d"
  shows "(take k s @ drop k d)[k := s ! k] = take (Suc k) s @ drop (Suc k) d"
proof -
  have "drop k d = d ! k # drop (Suc k) d" using assms(2) by (simp add: Cons_nth_drop_Suc)
  moreover have "length (take k s) = k" using assms(1) by simp
  ultimately have "(take k s @ drop k d)[k := s ! k] = take k s @ s ! k # drop (Suc k) d"
    by (simp add: list_update_append)
  also have "\<dots> = take (Suc k) s @ drop (Suc k) d"
    using assms(1) by (simp add: take_Suc_conv_app_nth)
  finally show ?thesis .
qed

lemma copy_cols:
  assumes "dst < length g" "src \<noteq> dst" "k \<le> length (g ! src)" "k \<le> length (g ! dst)"
  shows "foldl (\<lambda>g col. g[dst := (g ! dst)[col := g ! src ! col]]) g [0..<k]
         = g[dst := take k (g ! src) @ drop k (g ! dst)]"
  using assms(3,4)
proof (induction k)
  case 0
  then show ?case by simp
next
  case (Suc k)
  let ?g' = "g[dst := take k (g ! src) @ drop k (g ! dst)]"
  have IH: "foldl (\<lambda>g col. g[dst := (g ! dst)[col := g ! src ! col]]) g [0..<k] = ?g'"
    using Suc by simp
  have d: "?g' ! dst = take k (g ! src) @ drop k (g ! dst)" using assms(1) by simp
  have s: "?g' ! src = g ! src" using assms(2) by simp
  have "foldl (\<lambda>g col. g[dst := (g ! dst)[col := g ! src ! col]]) g [0..<Suc k]
        = ?g'[dst := (?g' ! dst)[k := ?g' ! src ! k]]"
    using IH by simp
  also have "\<dots> = g[dst := (take k (g ! src) @ drop k (g ! dst))[k := g ! src ! k]]"
    unfolding d s by simp
  also have "\<dots> = g[dst := take (Suc k) (g ! src) @ drop (Suc k) (g ! dst)]"
    using Suc.prems by (simp add: update_take_drop)
  finally show ?case .
qed

lemma copyRowDown_eq:
  assumes "0 < row" "row < length g" "length (g ! row) = w" "length (g ! (row - 1)) = w"
  shows "copyRowDown w g row = g[row := g ! (row - 1)]"
proof -
  have "row - 1 \<noteq> row" using assms(1) by simp
  then have "copyRowDown w g row = g[row := take w (g ! (row - 1)) @ drop w (g ! row)]"
    unfolding copyRowDown_def using assms by (intro copy_cols) simp_all
  with assms show ?thesis by simp
qed

lemma shift_rows:
  assumes "n < length g" "\<forall>row\<in>set g. length row = w"
  shows "foldl (copyRowDown w) g (rev [1..<Suc n]) = g ! 0 # take n g @ drop (Suc n) g"
  using assms
proof (induction n arbitrary: g)
  case 0
  then show ?case by (cases g) simp_all
next
  case (Suc n)
  let ?g' = "g[Suc n := g ! n]"
  have len: "length (g ! Suc n) = w" "length (g ! n) = w" using Suc.prems by simp_all
  have step: "copyRowDown w g (Suc n) = ?g'"
    using copyRowDown_eq [of "Suc n" g w] Suc.prems(1) len by simp
  have rows': "\<forall>row\<in>set ?g'. length row = w"
    using Suc.prems len by (auto dest!: set_update_subset_insert [THEN subsetD])
  have "foldl (copyRowDown w) g (rev [1..<Suc (Suc n)])
        = foldl (copyRowDown w) ?g' (rev [1..<Suc n])"
    using step by simp
  also have "\<dots> = ?g' ! 0 # take n ?g' @ drop (Suc n) ?g'"
    using Suc.prems(1) rows' by (intro Suc.IH) simp_all
  also have "\<dots> = g ! 0 # take n g @ g ! n # drop (Suc (Suc n)) g"
  proof -
    have "?g' = take (Suc n) g @ g ! n # drop (Suc (Suc n)) g"
      using Suc.prems(1) by (simp add: upd_conv_take_nth_drop)
    moreover have "length (take (Suc n) g) = Suc n" using Suc.prems(1) by simp
    ultimately have "drop (Suc n) ?g' = g ! n # drop (Suc (Suc n)) g"
      by (metis append_eq_conv_conj)
    then show ?thesis by simp
  qed
  also have "\<dots> = g ! 0 # take (Suc n) g @ drop (Suc (Suc n)) g"
    using Suc.prems(1) by (simp add: take_Suc_conv_app_nth)
  finally show ?case .
qed

lemma clear_cols:
  assumes "g \<noteq> []" "k \<le> length (g ! 0)"
  shows "foldl (\<lambda>g col. g[0 := (g ! 0)[col := 0]]) g [0..<k]
         = g[0 := replicate k (0::nat) @ drop k (g ! 0)]"
  using assms(2)
proof (induction k)
  case 0
  then show ?case by simp
next
  case (Suc k)
  let ?g' = "g[0 := replicate k 0 @ drop k (g ! 0)]"
  have IH: "foldl (\<lambda>g col. g[0 := (g ! 0)[col := 0]]) g [0..<k] = ?g'" using Suc by simp
  have d: "?g' ! 0 = replicate k 0 @ drop k (g ! 0)" using assms(1) by simp
  have "drop k (g ! 0) = g ! 0 ! k # drop (Suc k) (g ! 0)"
    using Suc.prems by (simp add: Cons_nth_drop_Suc)
  then have "(replicate k 0 @ drop k (g ! 0))[k := 0] = replicate (Suc k) 0 @ drop (Suc k) (g ! 0)"
    by (simp add: list_update_append replicate_append_same)
  with IH d show ?case by simp
qed

lemma clearTopRow_eq:
  assumes "g \<noteq> []" "length (g ! 0) = w"
  shows "clearTopRow w g = g[0 := replicate w 0]"
  using clear_cols [OF assms(1), of w] assms(2) by (simp add: clearTopRow_def)

lemma removeLine_eq:
  assumes "validateBoard b" "lineIndex < height b"
  shows "removeLine b lineIndex
         = b\<lparr>board := replicate (width b) 0 # take lineIndex (board b) @ drop (Suc lineIndex) (board b)\<rparr>"
proof -
  from assms have n: "lineIndex < length (board b)"
    and rows: "\<forall>row\<in>set (board b). length row = width b"
    by (simp_all add: validateBoard_def list_all_iff)
  have s: "foldl (copyRowDown (width b)) (board b) (rev [1..<Suc lineIndex])
           = board b ! 0 # take lineIndex (board b) @ drop (Suc lineIndex) (board b)"
    using n rows by (rule shift_rows)
  have "length (board b ! 0) = width b" using n rows by (cases "board b") simp_all
  then have "clearTopRow (width b) (board b ! 0 # take lineIndex (board b) @ drop (Suc lineIndex) (board b))
      = replicate (width b) 0 # take lineIndex (board b) @ drop (Suc lineIndex) (board b)"
    by (simp add: clearTopRow_eq)
  with s assms(2) show ?thesis by (simp add: removeLine_def)
qed

lemma emptyRow_not_complete: "\<not> lineComplete emptyRow"
  by (simp add: emptyRow_def lineComplete_def BOARD_WIDTH_def list_all_iff)

lemma clearLinesLoop_eq:
  assumes "y < 0 \<or> nat y < length brd"
  shows "clearLinesLoop brd y n
         = Some (replicate (length (filter lineComplete (take (nat (y + 1)) brd))) emptyRow
                   @ filter (\<lambda>row. \<not> lineComplete row) (take (nat (y + 1)) brd)
                   @ drop (nat (y + 1)) brd,
                 n + length (filter lineComplete (take (nat (y + 1)) brd)))"
  using assms
proof (induction brd y n rule: clearLinesLoop.induct)
  case (1 brd y n)
  show ?case
  proof (cases "y < 0")
    case True
    then show ?thesis by simp
  next
    case False
    with "1.prems" have lt: "nat y < length brd" by simp
    from False have ny: "nat (y + 1) = Suc (nat y)" by simp
    have tk: "take (Suc (nat y)) brd = take (nat y) brd @ [brd ! nat y]"
      using lt by (simp add: take_Suc_conv_app_nth)
    show ?thesis
    proof (cases "lineComplete (brd ! nat y)")
      case True
      let ?brd' = "replicate BOARD_WIDTH (Num 0) # (take (nat y) brd @ drop (Suc (nat y)) brd)"
      have len': "nat y < length ?brd'" using lt by simp
      have tk': "take (Suc (nat y)) ?brd' = emptyRow # take (nat y) brd"
        using lt by (simp add: emptyRow_def)
      have dr': "drop (Suc (nat y)) ?brd' = drop (Suc (nat y)) brd"
        using lt by simp
      have "clearLinesLoop brd y n = clearLinesLoop ?brd' y (n + 1)"
        using False lt True by simp
      also have "\<dots> = Some (replicate (length (filter lineComplete (take (nat (y + 1)) ?brd'))) emptyRow
                   @ filter (\<lambda>row. \<not> lineComplete row) (take (nat (y + 1)) ?brd')
                   @ drop (nat (y + 1)) ?brd',
                 n + 1 + length (filter lineComplete (take (nat (y + 1)) ?brd')))"
        using False lt True len' by (intro "1.IH"(1)) simp_all
      also have "\<dots> = Some (replicate (length (filter lineComplete (take (nat (y + 1)) brd))) emptyRow
                   @ filter (\<lambda>row. \<not> lineComplete row) (take (nat (y + 1)) brd)
                   @ drop (nat (y + 1)) brd,
                 n + length (filter lineComplete (take (nat (y + 1)) brd)))"
        unfolding ny tk' dr' tk using True emptyRow_not_complete
        by (simp add: replicate_app_Cons_same)
      finally show ?thesis .
    next
      case nc: False
      have pre: "y - 1 < 0 \<or> nat (y - 1) < length brd" using lt by auto
      have ny1: "nat (y - 1 + 1) = nat y" by simp
      have dr: "drop (nat y) brd = brd ! nat y # drop (Suc (nat y)) brd"
        using lt by (simp add: Cons_nth_drop_Suc)
      have "clearLinesLoop brd y n = clearLinesLoop brd (y - 1) n"
        using False lt nc by simp
      also have "\<dots> = Some (replicate (length (filter lineComplete (take (nat (y - 1 + 1)) brd))) emptyRow
                   @ filter (\<lambda>row. \<not> lineComplete row) (take (nat (y - 1 + 1)) brd)
                   @ drop (nat (y - 1 + 1)) brd,
                 n + length (filter lineComplete (take (nat (y - 1 + 1)) brd)))"
        using False lt nc pre by (intro "1.IH"(2)) simp_all
      also have "\<dots> = Some (replicate (length (filter lineComplete (take (nat (y + 1)) brd))) emptyRow
                   @ filter (\<lambda>row. \<not> lineComplete row) (take (nat (y + 1)) brd)
                   @ drop (nat (y + 1)) brd,
                 n + length (filter lineComplete (take (nat (y + 1)) brd)))"
        unfolding ny ny1 tk dr using nc by simp
      finally show ?thesis .
    qed
  qed
qed

lemma clearLinesLoop_board:
  assumes "length brd = BOARD_HEIGHT"
  shows "clearLinesLoop brd (int BOARD_HEIGHT - 1) 0
         = Some (replicate (length (filter lineComplete brd)) emptyRow
                   @ filter (\<lambda>row. \<not> lineComplete row) brd,
                 length (filter lineComplete brd))"
proof -
  have "int BOARD_HEIGHT - 1 < 0 \<or> nat (int BOARD_HEIGHT - 1) < length brd"
    using assms by (simp add: BOARD_HEIGHT_def)
  from clearLinesLoop_eq [OF this, of 0] assms show ?thesis
    by (simp add: BOARD_HEIGHT_def)
qed

lemma findCompletedLines_bound:
  assumes "r \<in> set (findCompletedLines b)"
  shows "r < height b"
  using assms by (auto simp: findCompletedLines_def)

text \<open>
  With exactly one complete row the my-work \<open>clearLines\<close> removes it: the rows above move
  down by one and an empty row enters at the top.
\<close>

lemma clearLines_single:
  assumes "validateBoard b" "findCompletedLines b = [r]"
  shows "clearLines b
         = (b\<lparr>board := replicate (width b) 0 # take r (board b) @ drop (Suc r) (board b)\<rparr>, 1)"
proof -
  have "r < height b" using assms(2) findCompletedLines_bound [of r b] by simp
  with assms show ?thesis
    by (simp add: clearLines_def removeCompletedLines_def removeLine_eq)
qed

lemma filled_complete_row:
  assumes "lineComplete row"
  shows "length (filter (\<lambda>cell. cell \<noteq> Num 0) row) = length row"
  using assms by (induction row) (simp_all add: lineComplete_def)

lemma filledCells_split:
  assumes "\<forall>row\<in>set brd. length row = BOARD_WIDTH"
  shows "filledCells brd
         = filledCells (filter (\<lambda>row. \<not> lineComplete row) brd)
           + length (filter lineComplete brd) * BOARD_WIDTH"
  using assms
  by (induction brd) (simp_all add: filledCells_def filled_complete_row)

lemma filledCells_emptyRows: "filledCells (replicate k emptyRow @ brd) = filledCells brd"
  by (induction k) (simp_all add: filledCells_def emptyRow_def)

text \<open>
  The examples variant clears every complete row in one call: the loop returns the
  number \<open>k\<close> of complete rows, and the board it leaves is \<open>k\<close> empty rows on top of the
  rows that were not complete, in their order; none of its rows is complete and the
  number of filled cells has dropped by \<open>k\<close> times the board width.
\<close>

lemma tg_clearLines_all_rows:
  assumes "boardShape brd"
  shows "\<exists>brd'. clearLinesLoop brd (int BOARD_HEIGHT - 1) 0
                  = Some (brd', length (filter lineComplete brd)) \<and>
           brd' = replicate (length (filter lineComplete brd)) emptyRow
                  @ filter (\<lambda>row. \<not> lineComplete row) brd \<and>
           boardShape brd' \<and>
           filter lineComplete brd' = [] \<and>
           filledCells brd = filledCells brd' + length (filter lineComplete brd) * BOARD_WIDTH"
proof -
  let ?k = "length (filter lineComplete brd)"
  let ?b = "replicate ?k emptyRow @ filter (\<lambda>row. \<not> lineComplete row) brd"
  from assms have len: "length brd = BOARD_HEIGHT"
    and rows: "\<forall>row\<in>set brd. length row = BOARD_WIDTH"
    by (simp_all add: boardShape_def list_all_iff)
  have e: "clearLinesLoop brd (int BOARD_HEIGHT - 1) 0 = Some (?b, ?k)"
    using len by (rule clearLinesLoop_board)
  have "length ?b = length brd" by (simp add: sum_length_filter_compl)
  then have s: "boardShape ?b"
    using len rows by (auto simp: boardShape_def list_all_iff emptyRow_def)
  have n: "filter lineComplete ?b = []"
    using emptyRow_not_complete by (auto simp: filter_empty_conv)
  have c: "filledCells brd = filledCells ?b + ?k * BOARD_WIDTH"
    using filledCells_split [OF rows] by (simp add: filledCells_emptyRows)
  from e s n c show ?thesis by blast
qed

text \<open>
  C1 at a concrete board of the my-work variant. An O piece is placed in columns 8 and 9
  of rows 18 and 19, which completes both rows; row 17 holds one cell. \<open>clearLines\<close>
  finds the rows \<open>[19, 18]\<close> and reports 2, but \<open>removeCompletedLines\<close> removes row 19 and
  then row 18 of the shifted board, which is the old row 17: afterwards a complete row is
  still at the bottom, the cell of row 17 is gone, and the filled cells have dropped from
  21 to 10, by 11 and not by 20. The loop of the examples variant, on the same board,
  removes both complete rows and moves row 17 down to row 19.
\<close>

theorem clear_two_lines:
  "newTetromino ''O'' = Some O_piece \<and>
   placePiece before_drop O_piece 8 18 = (after_drop, True) \<and>
   findCompletedLines after_drop = [19, 18] \<and>
   getFilledCellCount after_drop = 21 \<and>
   clearLines after_drop = (after_clear, 2) \<and>
   getFilledCellCount after_clear = 10 \<and>
   isLineComplete after_clear 19 \<and>
   clearLinesLoop tg_after_drop 19 0
     = Some (replicate 19 (replicate 10 (Num 0)) @ [Str ''#800080'' # replicate 9 (Num 0)], 2)"
  by code_simp

section \<open>Pieces above the top row\<close>

lemma boardShape_update:
  assumes "boardShape b" "r < BOARD_HEIGHT" "c < BOARD_WIDTH"
  shows "boardShape (b[r := (b ! r)[c := v]])"
  using assms
  by (auto simp: boardShape_def list_all_iff dest!: set_update_subset_insert [THEN subsetD])

lemma lockCell_ok:
  assumes "boardShape b" "cellInRange piece y x"
  shows "\<exists>b'. lockCell b piece y x = Some b' \<and> boardShape b' \<and>
           (\<forall>i<BOARD_HEIGHT. \<forall>j<BOARD_WIDTH. b' ! i ! j
              = (if pc_shape piece ! y ! x \<noteq> 0 \<and> int i = pc_y piece + int y
                    \<and> int j = pc_x piece + int x
                 then Str (pc_color piece) else b ! i ! j))"
proof (cases "pc_shape piece ! y ! x \<noteq> 0 \<and> 0 \<le> pc_y piece + int y")
  case False
  then have "lockCell b piece y x = Some b" by (auto simp: lockCell_def Let_def)
  with assms(1) False show ?thesis by auto
next
  case True
  with assms(2) obtain r c where rc: "pc_y piece + int y = int r" "pc_x piece + int x = int c"
    and lt: "r < BOARD_HEIGHT" "c < BOARD_WIDTH"
    unfolding cellInRange_def by (metis nat_int zless_nat_conj int_nat_eq zero_le_imp_eq_int of_nat_less_iff)
  from assms(1) lt have len: "r < length b" "c < length (b ! r)"
    by (auto simp: boardShape_def list_all_iff)
  have "lockCell b piece y x = Some (b[r := (b ! r)[c := Str (pc_color piece)]])"
    using True rc len by (simp add: lockCell_def storeCell_def js_set_def Let_def)
  moreover have "boardShape (b[r := (b ! r)[c := Str (pc_color piece)]])"
    using assms(1) lt by (rule boardShape_update)
  moreover have "(b[r := (b ! r)[c := Str (pc_color piece)]]) ! i ! j
              = (if pc_shape piece ! y ! x \<noteq> 0 \<and> int i = pc_y piece + int y
                    \<and> int j = pc_x piece + int x
                 then Str (pc_color piece) else b ! i ! j)"
    if "i < BOARD_HEIGHT" "j < BOARD_WIDTH" for i j
    using that True rc len assms(1) by (auto simp: nth_list_update boardShape_def)
  ultimately show ?thesis by blast
qed

lemma if_chain:
  "v1 = (if A then s else v0) \<Longrightarrow> v2 = (if B then s else v1) \<Longrightarrow> v2 = (if A \<or> B then s else v0)"
  by auto

lemma bex_upt4: "(\<exists>y\<in>set [0..<4]. P y) \<longleftrightarrow> (\<exists>y<4. P y)"
  by auto

lemma lock_cols:
  assumes "boardShape b" "\<forall>x\<in>set xs. cellInRange piece y x"
  shows "\<exists>b'. foldl (\<lambda>r x. Option.bind r (\<lambda>b. lockCell b piece y x)) (Some b) xs = Some b'
           \<and> boardShape b' \<and>
           (\<forall>i<BOARD_HEIGHT. \<forall>j<BOARD_WIDTH. b' ! i ! j
              = (if \<exists>x\<in>set xs. pc_shape piece ! y ! x \<noteq> 0 \<and> int i = pc_y piece + int y
                      \<and> int j = pc_x piece + int x
                 then Str (pc_color piece) else b ! i ! j))"
  using assms
proof (induction xs arbitrary: b)
  case Nil
  then show ?case by simp
next
  case (Cons x xs)
  from Cons.prems obtain b1 where b1: "lockCell b piece y x = Some b1" "boardShape b1"
    and c1: "\<forall>i<BOARD_HEIGHT. \<forall>j<BOARD_WIDTH. b1 ! i ! j
              = (if pc_shape piece ! y ! x \<noteq> 0 \<and> int i = pc_y piece + int y
                    \<and> int j = pc_x piece + int x
                 then Str (pc_color piece) else b ! i ! j)"
    using lockCell_ok [of b piece y x] by auto
  from Cons.prems have "\<forall>x\<in>set xs. cellInRange piece y x" by simp
  from Cons.IH [OF b1(2) this] obtain b' where
    b': "foldl (\<lambda>r x. Option.bind r (\<lambda>b. lockCell b piece y x)) (Some b1) xs = Some b'"
      "boardShape b'"
    and c': "\<forall>i<BOARD_HEIGHT. \<forall>j<BOARD_WIDTH. b' ! i ! j
              = (if \<exists>x\<in>set xs. pc_shape piece ! y ! x \<noteq> 0 \<and> int i = pc_y piece + int y
                      \<and> int j = pc_x piece + int x
                 then Str (pc_color piece) else b1 ! i ! j)"
    by blast
  have "foldl (\<lambda>r x. Option.bind r (\<lambda>b. lockCell b piece y x)) (Some b) (x # xs) = Some b'"
    using b1(1) b'(1) by simp
  moreover have "\<forall>i<BOARD_HEIGHT. \<forall>j<BOARD_WIDTH. b' ! i ! j
              = (if \<exists>x\<in>set (x # xs). pc_shape piece ! y ! x \<noteq> 0 \<and> int i = pc_y piece + int y
                      \<and> int j = pc_x piece + int x
                 then Str (pc_color piece) else b ! i ! j)"
    using c1 c' by auto
  ultimately show ?case using b'(2) by blast
qed

lemma lock_rows:
  assumes "boardShape b" "\<forall>y\<in>set ys. \<forall>x<4. cellInRange piece y x"
  shows "\<exists>b'. foldl (\<lambda>r y. foldl (\<lambda>r x. Option.bind r (\<lambda>b. lockCell b piece y x)) r [0..<4])
                  (Some b) ys = Some b'
           \<and> boardShape b' \<and>
           (\<forall>i<BOARD_HEIGHT. \<forall>j<BOARD_WIDTH. b' ! i ! j
              = (if \<exists>y\<in>set ys. \<exists>x<4. pc_shape piece ! y ! x \<noteq> 0 \<and> int i = pc_y piece + int y
                      \<and> int j = pc_x piece + int x
                 then Str (pc_color piece) else b ! i ! j))"
  using assms
proof (induction ys arbitrary: b)
  case Nil
  then show ?case by simp
next
  case (Cons y ys)
  from Cons.prems have "\<forall>x\<in>set [0..<4]. cellInRange piece y x" by simp
  from lock_cols [OF Cons.prems(1) this, unfolded bex_upt4] obtain b1 where
    b1: "foldl (\<lambda>r x. Option.bind r (\<lambda>b. lockCell b piece y x)) (Some b) [0..<4] = Some b1"
      "boardShape b1"
    and c1: "\<forall>i<BOARD_HEIGHT. \<forall>j<BOARD_WIDTH. b1 ! i ! j
              = (if \<exists>x<4. pc_shape piece ! y ! x \<noteq> 0 \<and> int i = pc_y piece + int y
                      \<and> int j = pc_x piece + int x
                 then Str (pc_color piece) else b ! i ! j)"
    by blast
  from Cons.prems have "\<forall>y\<in>set ys. \<forall>x<4. cellInRange piece y x" by simp
  from Cons.IH [OF b1(2) this] obtain b' where
    b': "foldl (\<lambda>r y. foldl (\<lambda>r x. Option.bind r (\<lambda>b. lockCell b piece y x)) r [0..<4])
                  (Some b1) ys = Some b'" "boardShape b'"
    and c': "\<forall>i<BOARD_HEIGHT. \<forall>j<BOARD_WIDTH. b' ! i ! j
              = (if \<exists>y\<in>set ys. \<exists>x<4. pc_shape piece ! y ! x \<noteq> 0 \<and> int i = pc_y piece + int y
                      \<and> int j = pc_x piece + int x
                 then Str (pc_color piece) else b1 ! i ! j)"
    by blast
  have "foldl (\<lambda>r y. foldl (\<lambda>r x. Option.bind r (\<lambda>b. lockCell b piece y x)) r [0..<4])
                  (Some b) (y # ys) = Some b'"
    using b1(1) b'(1) by simp
  moreover have "\<forall>i<BOARD_HEIGHT. \<forall>j<BOARD_WIDTH. b' ! i ! j
              = (if \<exists>y\<in>set (y # ys). \<exists>x<4. pc_shape piece ! y ! x \<noteq> 0
                      \<and> int i = pc_y piece + int y \<and> int j = pc_x piece + int x
                 then Str (pc_color piece) else b ! i ! j)"
  proof (intro allI impI)
    fix i j
    assume ij: "i < BOARD_HEIGHT" "j < BOARD_WIDTH"
    let ?Q = "\<lambda>y. \<exists>x<4. pc_shape piece ! y ! x \<noteq> 0
                      \<and> int i = pc_y piece + int y \<and> int j = pc_x piece + int x"
    have 1: "b1 ! i ! j = (if ?Q y then Str (pc_color piece) else b ! i ! j)"
      using c1 ij by blast
    have 2: "b' ! i ! j = (if \<exists>y\<in>set ys. ?Q y then Str (pc_color piece) else b1 ! i ! j)"
      using c' ij by blast
    have 3: "(\<exists>y'\<in>set (y # ys). ?Q y') \<longleftrightarrow> ?Q y \<or> (\<exists>y\<in>set ys. ?Q y)"
      by simp
    show "b' ! i ! j = (if \<exists>y\<in>set (y # ys). ?Q y then Str (pc_color piece) else b ! i ! j)"
      unfolding 3 using 1 2 by (rule if_chain)
  qed
  ultimately show ?case using b'(2) by blast
qed

lemma lockPiece_ok:
  assumes "boardShape brd" "\<not> checkCollision brd piece 0 0"
  shows "\<exists>b'. lockPiece brd piece = Some b' \<and> boardShape b' \<and>
           (\<forall>i<BOARD_HEIGHT. \<forall>j<BOARD_WIDTH. b' ! i ! j
              = (if \<exists>y<4. \<exists>x<4. pc_shape piece ! y ! x \<noteq> 0 \<and> int i = pc_y piece + int y
                      \<and> int j = pc_x piece + int x
                 then Str (pc_color piece) else brd ! i ! j))"
proof -
  from assms(2) have "tg_fits_below_top brd piece 0 0" by (simp add: checkCollision_iff)
  then have "\<forall>y\<in>set [0..<4]. \<forall>x<4. cellInRange piece y x"
    by (simp add: tg_fits_below_top_def cellInRange_def)
  from lock_rows [OF assms(1) this, unfolded bex_upt4] show ?thesis
    unfolding lockPiece_def .
qed

lemma above_top_no_collision:
  assumes "\<forall>y<4. \<forall>x<4. pc_shape piece ! y ! x \<noteq> 0 \<longrightarrow>
             pc_y piece + dy + int y < 0 \<and>
             0 \<le> pc_x piece + dx + int x \<and> pc_x piece + dx + int x < int BOARD_WIDTH"
  shows "\<not> checkCollision brd piece dx dy"
proof -
  from assms have "tg_fits_below_top brd piece dx dy"
    unfolding tg_fits_below_top_def BOARD_HEIGHT_def by fastforce
  then show ?thesis by (simp add: checkCollision_iff)
qed

lemma T_above_eval:
  "\<not> checkCollision createEmptyBoard T_above 0 0"
  "filledCells createEmptyBoard = 0"
  "map_option filledCells (lockPiece createEmptyBoard T_above) = Some 3"
  by code_simp+

text \<open>
  C10. In the examples variant a piece whose filled cells all lie above the top row, in
  columns of the board, is never a collision, on any board. When a piece that does not
  collide is locked, the board keeps its shape and a cell \<open>(i, j)\<close> of the board receives
  the piece's colour exactly when a filled shape cell maps to it; every other cell is
  unchanged, so filled shape cells with a negative board row are dropped. The T piece two
  rows above its spawn row does not collide on the empty board, and locking it fills 3
  cells, not 4.
\<close>

theorem above_top:
  "((\<forall>y<4. \<forall>x<4. pc_shape piece ! y ! x \<noteq> 0 \<longrightarrow>
        pc_y piece + dy + int y < 0 \<and>
        0 \<le> pc_x piece + dx + int x \<and> pc_x piece + dx + int x < int BOARD_WIDTH)
      \<longrightarrow> \<not> checkCollision brd piece dx dy) \<and>
   (boardShape brd \<and> \<not> checkCollision brd piece 0 0 \<longrightarrow>
      (\<exists>b'. lockPiece brd piece = Some b' \<and> boardShape b' \<and>
         (\<forall>i<BOARD_HEIGHT. \<forall>j<BOARD_WIDTH. b' ! i ! j
            = (if \<exists>y<4. \<exists>x<4. pc_shape piece ! y ! x \<noteq> 0 \<and> int i = pc_y piece + int y
                    \<and> int j = pc_x piece + int x
               then Str (pc_color piece) else brd ! i ! j)))) \<and>
   \<not> checkCollision createEmptyBoard T_above 0 0 \<and>
   filledCells createEmptyBoard = 0 \<and>
   map_option filledCells (lockPiece createEmptyBoard T_above) = Some 3"
  using above_top_no_collision lockPiece_ok T_above_eval by blast

theorem above_top_witness:
  "pc_y I_above + 0 + 1 < 0 \<and>
   \<not> checkCollision createEmptyBoard I_above 0 0 \<and>
   boardShape createEmptyBoard \<and>
   lockPiece createEmptyBoard I_above = Some createEmptyBoard"
proof -
  have h: "\<forall>y<4. \<forall>x<4. pc_shape I_above ! y ! x \<noteq> 0 \<longrightarrow>
        pc_y I_above + 0 + int y < 0 \<and>
        0 \<le> pc_x I_above + 0 + int x \<and> pc_x I_above + 0 + int x < int BOARD_WIDTH"
    by (simp add: all_less4 I_above_def BOARD_WIDTH_def)
  have e: "boardShape createEmptyBoard" "lockPiece createEmptyBoard I_above = Some createEmptyBoard"
    by code_simp+
  have y: "pc_y I_above + 0 + 1 < 0" by (simp add: I_above_def)
  from above_top [of I_above 0 0 createEmptyBoard] h e y show ?thesis by blast
qed

section \<open>The grid invariant\<close>

lemma board_inv_iff:
  "board_inv b \<longleftrightarrow> validateBoard b \<and> (\<forall>i<height b. \<forall>j<width b. board b ! i ! j \<le> 7)"
  unfolding board_inv_def validateBoard_def list_all_length by auto

lemma tg_board_inv_iff:
  "tg_board_inv brd \<longleftrightarrow>
     boardShape brd \<and> (\<forall>i<BOARD_HEIGHT. \<forall>j<BOARD_WIDTH. colourCell (brd ! i ! j))"
  unfolding tg_board_inv_def boardShape_def list_all_length by auto

lemma newGameBoard_inv: "board_inv (newGameBoard w h)"
  by (simp add: board_inv_def newGameBoard_def initializeBoard_def list_all_iff)

lemma reset_board_inv: "board_inv (reset_board b)"
  by (simp add: board_inv_def reset_board_def clear_def initializeBoard_def list_all_iff)

lemma placePiece_inv:
  assumes "board_inv b" "valid_piece p"
  shows "board_inv (fst (placePiece b p x y)) \<and> width (fst (placePiece b p x y)) = width b
       \<and> height (fst (placePiece b p x y)) = height b"
proof (cases "isValidPosition b p x y")
  case False
  with assms(1) show ?thesis by (simp add: placePiece_def)
next
  case True
  from assms(2) obtain shape where s: "getShape p = Some shape" "shape \<noteq> []"
    by (rule valid_piece_shape)
  from assms(1) have v: "validateBoard b"
    and c: "\<forall>i<height b. \<forall>j<width b. board b ! i ! j \<le> 7"
    by (simp_all add: board_inv_iff)
  have pp: "fst (placePiece b p x y) = placeCells b shape (getColorId (getColor p)) x y"
    using True s by (simp add: placePiece_def)
  have "board (placeCells b shape (getColorId (getColor p)) x y) ! i ! j \<le> 7"
    if "i < height b" "j < width b" for i j
    using placeCells_props(4) [OF v that, of shape "getColorId (getColor p)" x y]
          c that valid_piece_colorId(3) [OF assms(2)]
    by (simp split: if_splits)
  with placeCells_props(1,2,3) [OF v, of shape "getColorId (getColor p)" x y] pp
  show ?thesis by (simp add: board_inv_iff)
qed

lemma removeLine_inv:
  assumes "board_inv b"
  shows "board_inv (removeLine b n) \<and> width (removeLine b n) = width b
       \<and> height (removeLine b n) = height b"
proof (cases "n < height b")
  case False
  with assms show ?thesis by (simp add: removeLine_def)
next
  case True
  from assms have v: "validateBoard b" by (simp add: board_inv_iff)
  have e: "removeLine b n
      = b\<lparr>board := replicate (width b) 0 # take n (board b) @ drop (Suc n) (board b)\<rparr>"
    using v True by (rule removeLine_eq)
  have sub: "set (take n (board b) @ drop (Suc n) (board b)) \<subseteq> set (board b)"
    by (auto dest: in_set_takeD in_set_dropD)
  have len: "length (take n (board b) @ drop (Suc n) (board b)) = height b - 1"
    using assms True by (simp add: board_inv_def)
  from assms sub len True show ?thesis
    unfolding e by (auto simp: board_inv_def list_all_iff)
qed

lemma removeCompletedLines_inv:
  assumes "board_inv b"
  shows "board_inv (removeCompletedLines b ns) \<and> width (removeCompletedLines b ns) = width b
       \<and> height (removeCompletedLines b ns) = height b"
  unfolding removeCompletedLines_def using assms
proof (induction ns arbitrary: b)
  case Nil
  then show ?case by simp
next
  case (Cons n ns)
  from removeLine_inv [OF Cons.prems, of n] Cons.IH [of "removeLine b n"]
  show ?case by simp
qed

lemma clearLines_inv:
  assumes "board_inv b"
  shows "board_inv (fst (clearLines b)) \<and> width (fst (clearLines b)) = width b
       \<and> height (fst (clearLines b)) = height b"
  using assms removeCompletedLines_inv [OF assms]
  by (simp add: clearLines_def Let_def)

lemma createEmptyBoard_inv: "tg_board_inv createEmptyBoard"
  by (simp add: tg_board_inv_def createEmptyBoard_def list_all_iff)

lemma lockPiece_inv:
  assumes "tg_board_inv brd" "\<not> checkCollision brd piece 0 0"
  shows "\<exists>b'. lockPiece brd piece = Some b' \<and> tg_board_inv b'"
proof -
  from assms(1) have s: "boardShape brd"
    and c: "\<forall>i<BOARD_HEIGHT. \<forall>j<BOARD_WIDTH. colourCell (brd ! i ! j)"
    by (simp_all add: tg_board_inv_iff)
  from lockPiece_ok [OF s assms(2)] obtain b' where
    b': "lockPiece brd piece = Some b'" "boardShape b'"
    and c': "\<forall>i<BOARD_HEIGHT. \<forall>j<BOARD_WIDTH. b' ! i ! j
              = (if \<exists>y<4. \<exists>x<4. pc_shape piece ! y ! x \<noteq> 0 \<and> int i = pc_y piece + int y
                      \<and> int j = pc_x piece + int x
                 then Str (pc_color piece) else brd ! i ! j)"
    by blast
  have "colourCell (b' ! i ! j)" if "i < BOARD_HEIGHT" "j < BOARD_WIDTH" for i j
    using c c' that by simp
  with b' show ?thesis by (auto simp: tg_board_inv_iff)
qed

lemma clearLinesLoop_inv:
  assumes "tg_board_inv brd"
  shows "\<exists>b' n. clearLinesLoop brd (int BOARD_HEIGHT - 1) 0 = Some (b', n) \<and> tg_board_inv b'"
proof -
  from assms have len: "length brd = BOARD_HEIGHT" by (simp add: tg_board_inv_def)
  let ?b' = "replicate (length (filter lineComplete brd)) emptyRow
                   @ filter (\<lambda>row. \<not> lineComplete row) brd"
  have e: "clearLinesLoop brd (int BOARD_HEIGHT - 1) 0 = Some (?b', length (filter lineComplete brd))"
    using len by (rule clearLinesLoop_board)
  have "length ?b' = length brd" by (simp add: sum_length_filter_compl)
  moreover have "list_all (\<lambda>row. length row = BOARD_WIDTH \<and> list_all colourCell row) ?b'"
    using assms by (auto simp: tg_board_inv_def list_all_iff emptyRow_def)
  ultimately have "tg_board_inv ?b'" using len by (simp add: tg_board_inv_def)
  with e show ?thesis by blast
qed

lemma tg_placePiece_inv:
  assumes "tg_board_inv brd" "\<not> checkCollision brd piece 0 0"
  shows "\<exists>b' g'. tg_placePiece brd g piece = Some (b', g') \<and> tg_board_inv b'"
proof -
  from lockPiece_inv [OF assms] obtain b1 where
    b1: "lockPiece brd piece = Some b1" "tg_board_inv b1" by blast
  from clearLinesLoop_inv [OF b1(2)] obtain b' n where
    b': "clearLinesLoop b1 (int BOARD_HEIGHT - 1) 0 = Some (b', n)" "tg_board_inv b'" by blast
  from b1(1) b' show ?thesis
    by (auto simp: tg_placePiece_def tg_clearLines_def)
qed

text \<open>
  C9, as stated, fails in the examples variant: locking the O piece at its spawn position
  on the empty board stores the string \<open>#ffff00\<close>, so not every cell of the board is a
  number from 0 to 7.
\<close>

theorem grid_invariant_counterexample:
  "createPiece ''O'' = Some O_spawn \<and>
   \<not> checkCollision createEmptyBoard O_spawn 0 0 \<and>
   map_option (list_all (list_all cellIn07)) (lockPiece createEmptyBoard O_spawn) = Some False"
  by code_simp

text \<open>
  C9, amended. In the my-work variant creation, \<open>reset\<close>, \<open>placePiece\<close> of a constructed
  piece and \<open>clearLines\<close> keep \<open>width\<close> and \<open>height\<close> and leave a grid of \<open>height\<close> rows of
  \<open>width\<close> cells, each from 0 to 7. In the examples variant creation, the locking of a
  piece that does not collide, \<open>clearLines\<close> and so \<open>placePiece\<close> leave a grid of 20 rows
  of 10 cells, each the number 0 or a colour string.
\<close>

theorem grid_invariant:
  "board_inv (newGameBoard w h) \<and> width (newGameBoard w h) = w \<and> height (newGameBoard w h) = h \<and>
   board_inv (reset_board b) \<and> width (reset_board b) = width b \<and>
   height (reset_board b) = height b \<and>
   (board_inv b \<and> valid_piece p \<longrightarrow>
      board_inv (fst (placePiece b p x y)) \<and> width (fst (placePiece b p x y)) = width b \<and>
      height (fst (placePiece b p x y)) = height b) \<and>
   (board_inv b \<longrightarrow>
      board_inv (fst (clearLines b)) \<and> width (fst (clearLines b)) = width b \<and>
      height (fst (clearLines b)) = height b) \<and>
   tg_board_inv createEmptyBoard \<and>
   (tg_board_inv brd \<and> \<not> checkCollision brd piece 0 0 \<longrightarrow>
      (\<exists>b'. lockPiece brd piece = Some b' \<and> tg_board_inv b')) \<and>
   (tg_board_inv brd \<longrightarrow>
      (\<exists>b' n. clearLinesLoop brd (int BOARD_HEIGHT - 1) 0 = Some (b', n) \<and> tg_board_inv b')) \<and>
   (tg_board_inv brd \<and> \<not> checkCollision brd piece 0 0 \<longrightarrow>
      (\<exists>b' g'. tg_placePiece brd g piece = Some (b', g') \<and> tg_board_inv b'))"
proof -
  have d: "width (newGameBoard w h) = w" "height (newGameBoard w h) = h"
    "width (reset_board b) = width b" "height (reset_board b) = height b"
    by (simp_all add: newGameBoard_def reset_board_def clear_def initializeBoard_def)
  from d newGameBoard_inv reset_board_inv placePiece_inv clearLines_inv createEmptyBoard_inv
       lockPiece_inv clearLinesLoop_inv tg_placePiece_inv
  show ?thesis by blast
qed

theorem grid_invariant_witness:
  "board_inv before_drop \<and> valid_piece O_piece \<and>
   board_inv (fst (placePiece before_drop O_piece 8 18)) \<and>
   board_inv (fst (clearLines before_drop)) \<and>
   tg_board_inv createEmptyBoard \<and> \<not> checkCollision createEmptyBoard O_spawn 0 0 \<and>
   (\<exists>b'. lockPiece createEmptyBoard O_spawn = Some b' \<and> tg_board_inv b')"
proof -
  have e: "board_inv before_drop" "\<not> checkCollision createEmptyBoard O_spawn 0 0"
    by code_simp+
  have v: "valid_piece O_piece"
    by (simp add: valid_piece_def O_piece_def TETROMINO_TYPES_def)
  from grid_invariant [of 10 20 before_drop O_piece 8 18 createEmptyBoard O_spawn
                          startNewGame_score] e v
  show ?thesis by blast
qed

end
